theory Spec2Isabelle
  imports Complex_Main "HOL-Library.Word" "HOL-Library.Log_Nat"
begin

section \<open>Constants of App.tsx\<close>

text \<open>
  JavaScript numbers are modelled as real numbers in the handlers: the rounding of
  IEEE-754 doubles is represented for the two coordinate conversions only (section
  Double arithmetic). Where the source can divide by zero, the model says what IEEE
  arithmetic does there (a comparison with an infinity or with NaN that fails, or a
  handler whose result is \<open>None\<close> because a stored number would be infinite or NaN).
\<close>

definition IMAGE_WIDTH :: real where
  "IMAGE_WIDTH = 375"

definition COLOR_DISTANCE_THRESHOLD :: int where
  "COLOR_DISTANCE_THRESHOLD = 20"

definition MOVE_AMOUNT :: real where
  "MOVE_AMOUNT = 25"

definition MIN_WIDTH :: real where
  "MIN_WIDTH = 50"

definition MAX_WIDTH :: real where
  "MAX_WIDTH = 1000"

definition MIN_SCALE :: real where
  "MIN_SCALE = 0.2"

definition MAX_SCALE :: real where
  "MAX_SCALE = 3.0"

section \<open>Data model\<close>

datatype File = File (fileName: string) (fileType: string)

text \<open>An \<open>HTMLImageElement\<close>: its source URL and its pixel dimensions.\<close>

record HTMLImageElement =
  el_src :: string
  el_width :: nat
  el_height :: nat

text \<open>The type of \<open>contentBounds\<close>: \<open>{ x, y, width, height }\<close>.\<close>

record Bounds =
  b_x :: real
  b_y :: real
  b_width :: real
  b_height :: real

text \<open>
  \<open>interface ProcessedImage\<close>. An optional field (\<open>f?: T\<close>) is an option; the fields
  \<open>id\<close>, \<open>x\<close>, \<open>y\<close>, \<open>width\<close>, \<open>height\<close> carry the prefix \<open>img_\<close>.
\<close>

record ProcessedImage =
  img_id :: nat
  sourceFile :: "File option"
  sourceText :: "string option"
  processedImage :: "HTMLImageElement option"
  originalImageUrl :: "string option"
  showOriginal :: "bool option"
  img_x :: real
  img_y :: real
  img_width :: real
  img_height :: real
  isGenerating :: bool
  contentBounds :: Bounds
  sourcePreviewUrl :: "string option"
  flippedHorizontally :: "bool option"
  isVariation :: "bool option"
  remixSuggestions :: "string list option"
  generatingPrompt :: "string option"

text \<open>The view transform \<open>{ scale, offsetX, offsetY }\<close>.\<close>

record ViewTransform =
  scale :: real
  offsetX :: real
  offsetY :: real

text \<open>The state \<open>draggingImage\<close>: \<open>{ id, offsetX, offsetY }\<close>.\<close>

record DragState =
  drag_id :: nat
  drag_offsetX :: real
  drag_offsetY :: real

text \<open>
  The state \<open>pinchState\<close>. The source has one object type with \<open>id: number | 'canvas'\<close>
  and optional fields; its two construction sites (in \<open>handleTouchStart\<close>) set exactly
  the fields of the two constructors below.
\<close>

datatype PinchState =
    ObjectPinch nat real real real real real
      \<comment> \<open>id, initialDistance, initialWidth, initialHeight, centerX, centerY\<close>
  | CanvasPinch real ViewTransform "real \<times> real"
      \<comment> \<open>initialDistance, initialViewTransform, initialMidPoint\<close>

text \<open>The result of \<open>canvasRef.current?.getBoundingClientRect()\<close>: left and top.\<close>

record DOMRect =
  rect_left :: real
  rect_top :: real

text \<open>The React state of the component \<open>App\<close> that the interaction handlers use.\<close>

record AppState =
  images :: "ProcessedImage list"
  draggingImage :: "DragState option"
  hoveredImageId :: "nat option"
  selectedImageId :: "nat option"
  isPanning :: bool
  panStart :: "real \<times> real"
  viewTransform :: ViewTransform
  pinchState :: "PinchState option"
  canvasRect :: "DOMRect option"
  nextId :: nat

section \<open>Coordinate conversions\<close>

text \<open>
  Screen to world, as written at the head of \<open>getImageAtPosition\<close> (and in the drag and
  drop handlers): \<open>(screenX - offsetX) / scale\<close>.
\<close>

definition screenToWorld :: "ViewTransform \<Rightarrow> real \<times> real \<Rightarrow> real \<times> real" where
  "screenToWorld vt s =
     ((fst s - offsetX vt) / scale vt, (snd s - offsetY vt) / scale vt)"

text \<open>World to screen, as written in \<open>actionBarPosition\<close>: \<open>world * scale + offset\<close>.\<close>

definition worldToScreen :: "ViewTransform \<Rightarrow> real \<times> real \<Rightarrow> real \<times> real" where
  "worldToScreen vt w =
     (fst w * scale vt + offsetX vt, snd w * scale vt + offsetY vt)"

section \<open>Double arithmetic\<close>

text \<open>
  The numbers of the browser are IEEE-754 binary64 values (the Number type of
  ECMAScript): every arithmetic operation returns the double nearest to the exact
  result, the one with the even significand when the exact result is halfway between
  two doubles. A finite double is represented by the real number it denotes (the two
  zeros are one value); \<open>None\<close> stands for a result that is not finite: an infinity,
  after an overflow or a division by zero, or NaN.
\<close>

text \<open>The integer nearest to \<open>y\<close>, the even one of the two when \<open>y\<close> is halfway.\<close>

definition roundHalfEven :: "real \<Rightarrow> int" where
  "roundHalfEven y =
     (let f = \<lfloor>y\<rfloor>
      in if y - of_int f < 1 / 2 then f
         else if y - of_int f > 1 / 2 then f + 1
         else if even f then f else f + 1)"

text \<open>The binary exponent of \<open>x > 0\<close>: the \<open>e\<close> with \<open>2 ^ e \<le> x < 2 ^ (e + 1)\<close>.\<close>

definition exponentOf :: "real \<Rightarrow> int" where
  "exponentOf x = (if 1 \<le> x then bitlen \<lfloor>x\<rfloor> - 1 else - bitlen (\<lceil>1 / x\<rceil> - 1))"

text \<open>
  The double nearest to \<open>x\<close>. The doubles of exponent \<open>e\<close> are the multiples of
  \<open>2 ^ (e - 52)\<close> (53 significant bits); below \<open>2 ^ (- 1022)\<close> the subnormal numbers
  keep the spacing \<open>2 ^ (- 1074)\<close>; a rounded value of magnitude \<open>2 ^ 1024\<close> or more
  overflows to an infinity.
\<close>

definition roundDouble :: "real \<Rightarrow> real option" where
  "roundDouble x =
     (if x = 0 then Some 0
      else let q = 2 powi (max (exponentOf \<bar>x\<bar>) (- 1022) - 52);
               r = of_int (roundHalfEven (x / q)) * q
           in if \<bar>r\<bar> < 2 powi 1024 then Some r else None)"

text \<open>
  The operators \<open>*\<close>, \<open>+\<close>, \<open>-\<close> and \<open>/\<close> on finite doubles. A division by zero
  gives an infinity or NaN.
\<close>

definition dmul :: "real \<Rightarrow> real \<Rightarrow> real option" where
  "dmul a b = roundDouble (a * b)"

definition dadd :: "real \<Rightarrow> real \<Rightarrow> real option" where
  "dadd a b = roundDouble (a + b)"

definition dsub :: "real \<Rightarrow> real \<Rightarrow> real option" where
  "dsub a b = roundDouble (a - b)"

definition ddiv :: "real \<Rightarrow> real \<Rightarrow> real option" where
  "ddiv a b = (if b = 0 then None else roundDouble (a / b))"

text \<open>
  The two conversions as the code computes them, operation by operation:
  \<open>world * scale + offset\<close> of \<open>actionBarPosition\<close> and \<open>(screen - offset) / scale\<close>
  of \<open>getImageAtPosition\<close>.
\<close>

definition worldToScreenDouble ::
  "ViewTransform \<Rightarrow> real \<times> real \<Rightarrow> (real \<times> real) option" where
  "worldToScreenDouble vt w =
     Option.bind (dmul (fst w) (scale vt)) (\<lambda>ax.
     Option.bind (dadd ax (offsetX vt)) (\<lambda>x.
     Option.bind (dmul (snd w) (scale vt)) (\<lambda>ay.
     Option.bind (dadd ay (offsetY vt)) (\<lambda>y. Some (x, y)))))"

definition screenToWorldDouble ::
  "ViewTransform \<Rightarrow> real \<times> real \<Rightarrow> (real \<times> real) option" where
  "screenToWorldDouble vt s =
     Option.bind (dsub (fst s) (offsetX vt)) (\<lambda>dx.
     Option.bind (ddiv dx (scale vt)) (\<lambda>x.
     Option.bind (dsub (snd s) (offsetY vt)) (\<lambda>dy.
     Option.bind (ddiv dy (scale vt)) (\<lambda>y. Some (x, y)))))"

section \<open>Hit-testing\<close>

text \<open>
  The body of the loop of \<open>getImageAtPosition\<close> for one candidate: does the loop return
  this image? When \<open>processedImage.width\<close> (or \<open>height\<close>) is 0, \<open>scaleX\<close> is an
  infinity or NaN, every scaled bound is an infinity or NaN, and one of the two
  comparisons on that axis fails: no hit.
\<close>

definition hitTest :: "real \<Rightarrow> real \<Rightarrow> ProcessedImage \<Rightarrow> bool" where
  "hitTest worldX worldY img =
     (if worldX \<ge> img_x img \<and> worldX \<le> img_x img + img_width img \<and>
         worldY \<ge> img_y img \<and> worldY \<le> img_y img + img_height img
      then
        if isGenerating img then True
        else (case processedImage img of
                None \<Rightarrow> False
              | Some el \<Rightarrow>
                  if el_width el = 0 \<or> el_height el = 0 then False
                  else
                    let localX = worldX - img_x img;
                        localY = worldY - img_y img;
                        scaleX = img_width img / real (el_width el);
                        scaleY = img_height img / real (el_height el);
                        sx = b_x (contentBounds img) * scaleX;
                        sy = b_y (contentBounds img) * scaleY;
                        sw = b_width (contentBounds img) * scaleX;
                        sh = b_height (contentBounds img) * scaleY
                    in localX \<ge> sx \<and> localX \<le> sx + sw \<and>
                       localY \<ge> sy \<and> localY \<le> sy + sh)
      else False)"

text \<open>
  The loop \<open>for (let i = images.length - 1; i >= 0; i--)\<close>: the last argument is
  \<open>i + 1\<close>, the number of candidates still to test.
\<close>

fun hitLoop :: "real \<Rightarrow> real \<Rightarrow> ProcessedImage list \<Rightarrow> nat \<Rightarrow> ProcessedImage option" where
  "hitLoop worldX worldY imgs 0 = None"
| "hitLoop worldX worldY imgs (Suc i) =
     (if hitTest worldX worldY (imgs ! i) then Some (imgs ! i)
      else hitLoop worldX worldY imgs i)"

text \<open>
  \<open>getImageAtPosition\<close>. With \<open>scale = 0\<close> the world coordinates are infinite or NaN
  and the first comparison of every candidate fails: the result is \<open>null\<close>.
\<close>

definition getImageAtPosition ::
  "ViewTransform \<Rightarrow> ProcessedImage list \<Rightarrow> real \<Rightarrow> real \<Rightarrow> ProcessedImage option" where
  "getImageAtPosition vt imgs screenX screenY =
     (if scale vt = 0 then None
      else
        let worldX = (screenX - offsetX vt) / scale vt;
            worldY = (screenY - offsetY vt) / scale vt
        in hitLoop worldX worldY imgs (length imgs))"

section \<open>Wheel: object scaling and canvas zoom\<close>

text \<open>
  The function mapped over \<open>prev\<close> in the first branch of \<open>handleWheel\<close>.
  With \<open>height = 0\<close> and \<open>width \<noteq> 0\<close> the aspect ratio is infinite and \<open>newHeight\<close>
  is 0, which is what the quotients below give as well.
\<close>

definition wheelScaleImage :: "nat \<Rightarrow> real \<Rightarrow> ProcessedImage \<Rightarrow> ProcessedImage" where
  "wheelScaleImage targetId scaleFactor img =
     (if img_id img \<noteq> targetId then img
      else
        let aspectRatio = img_width img / img_height img;
            newWidth = img_width img * scaleFactor;
            newWidth = (if newWidth < MIN_WIDTH then MIN_WIDTH else newWidth);
            newWidth = (if newWidth > MAX_WIDTH then MAX_WIDTH else newWidth);
            newHeight = newWidth / aspectRatio;
            centerX = img_x img + img_width img / 2;
            centerY = img_y img + img_height img / 2;
            newX = centerX - newWidth / 2;
            newY = centerY - newHeight / 2
        in img\<lparr>img_width := newWidth, img_height := newHeight,
               img_x := newX, img_y := newY\<rparr>)"

text \<open>
  First branch of \<open>handleWheel\<close> (a target that is not generating). An image of the
  target's id with \<open>width = 0\<close> would get an infinite or NaN height: \<open>None\<close>.
\<close>

definition wheelObject :: "AppState \<Rightarrow> ProcessedImage \<Rightarrow> real \<Rightarrow> AppState option" where
  "wheelObject st targetImage deltaY =
     (let SCALE_SPEED = 0.1;
          scaleDirection = (if deltaY < 0 then 1 else -1);
          scaleFactor = 1 + scaleDirection * SCALE_SPEED
      in if list_ex (\<lambda>img. img_id img = img_id targetImage \<and> img_width img = 0) (images st)
         then None
         else Some (st\<lparr>images :=
                map (wheelScaleImage (img_id targetImage) scaleFactor) (images st)\<rparr>))"

text \<open>
  Second branch of \<open>handleWheel\<close> (\<open>else if (!draggingImage && !isPanning)\<close>): canvas
  zoom about the pointer. With a current scale of 0 the new offsets are infinite or
  NaN: \<open>None\<close>.
\<close>

definition wheelCanvas :: "AppState \<Rightarrow> real \<Rightarrow> real \<Rightarrow> real \<Rightarrow> AppState option" where
  "wheelCanvas st x y deltaY =
     (if draggingImage st = None \<and> \<not> isPanning st then
        let scaleAmount = 1.1;
            currentScale = scale (viewTransform st);
            newScaleUnclamped =
              (if deltaY < 0 then currentScale * scaleAmount else currentScale / scaleAmount);
            newScale = max MIN_SCALE (min MAX_SCALE newScaleUnclamped)
        in if currentScale = 0 then None
           else
             let worldX = (x - offsetX (viewTransform st)) / currentScale;
                 worldY = (y - offsetY (viewTransform st)) / currentScale;
                 newOffsetX = x - worldX * newScale;
                 newOffsetY = y - worldY * newScale
             in Some (st\<lparr>viewTransform :=
                  \<lparr>scale = newScale, offsetX = newOffsetX, offsetY = newOffsetY\<rparr>\<rparr>)
      else Some st)"

text \<open>\<open>handleWheel\<close>, on an event with \<open>clientX\<close>, \<open>clientY\<close> and \<open>deltaY\<close>.\<close>

definition handleWheel :: "AppState \<Rightarrow> real \<Rightarrow> real \<Rightarrow> real \<Rightarrow> AppState option" where
  "handleWheel st clientX clientY deltaY =
     (case canvasRect st of
        None \<Rightarrow> Some st
      | Some rect \<Rightarrow>
          let x = clientX - rect_left rect;
              y = clientY - rect_top rect
          in (case getImageAtPosition (viewTransform st) (images st) x y of
                Some targetImage \<Rightarrow>
                  if \<not> isGenerating targetImage then wheelObject st targetImage deltaY
                  else wheelCanvas st x y deltaY
              | None \<Rightarrow> wheelCanvas st x y deltaY))"

section \<open>Pointer interaction: drag and pan\<close>

text \<open>
  \<open>handleInteractionStart\<close>. A target is only found with a nonzero scale, so the
  quotients of the first branch are proper ones.
\<close>

definition handleInteractionStart :: "AppState \<Rightarrow> real \<Rightarrow> real \<Rightarrow> AppState" where
  "handleInteractionStart st clientX clientY =
     (case canvasRect st of
        None \<Rightarrow> st
      | Some rect \<Rightarrow>
          let x = clientX - rect_left rect;
              y = clientY - rect_top rect
          in (case getImageAtPosition (viewTransform st) (images st) x y of
                Some targetImage \<Rightarrow>
                  let worldX = (x - offsetX (viewTransform st)) / scale (viewTransform st);
                      worldY = (y - offsetY (viewTransform st)) / scale (viewTransform st)
                  in st\<lparr>selectedImageId := Some (img_id targetImage),
                        draggingImage := Some
                          \<lparr>drag_id = img_id targetImage,
                           drag_offsetX = worldX - img_x targetImage,
                           drag_offsetY = worldY - img_y targetImage\<rparr>,
                        images :=
                          filter (\<lambda>img. img_id img \<noteq> img_id targetImage) (images st)
                            @ [targetImage]\<rparr>
              | None \<Rightarrow>
                  st\<lparr>selectedImageId := None, isPanning := True,
                     panStart := (clientX, clientY)\<rparr>))"

text \<open>
  \<open>handleInteractionMove\<close>. While dragging with a scale of 0, the dragged image would
  get an infinite or NaN position: \<open>None\<close>.
\<close>

definition handleInteractionMove :: "AppState \<Rightarrow> real \<Rightarrow> real \<Rightarrow> AppState option" where
  "handleInteractionMove st clientX clientY =
     (case canvasRect st of
        None \<Rightarrow> Some st
      | Some rect \<Rightarrow>
          let x = clientX - rect_left rect;
              y = clientY - rect_top rect
          in (case draggingImage st of
                Some d \<Rightarrow>
                  if scale (viewTransform st) = 0 \<and>
                     list_ex (\<lambda>img. img_id img = drag_id d) (images st)
                  then None
                  else
                    let worldX = (x - offsetX (viewTransform st)) / scale (viewTransform st);
                        worldY = (y - offsetY (viewTransform st)) / scale (viewTransform st)
                    in Some (st\<lparr>images :=
                         map (\<lambda>img. if img_id img = drag_id d
                                then img\<lparr>img_x := worldX - drag_offsetX d,
                                         img_y := worldY - drag_offsetY d\<rparr>
                                else img) (images st)\<rparr>)
              | None \<Rightarrow>
                  if isPanning st then
                    let dx = clientX - fst (panStart st);
                        dy = clientY - snd (panStart st)
                    in Some (st\<lparr>viewTransform := (viewTransform st)
                                 \<lparr>offsetX := offsetX (viewTransform st) + dx,
                                  offsetY := offsetY (viewTransform st) + dy\<rparr>,
                               panStart := (clientX, clientY)\<rparr>)
                  else
                    (case getImageAtPosition (viewTransform st) (images st) x y of
                       Some targetImage \<Rightarrow>
                         Some (st\<lparr>hoveredImageId :=
                           (if \<not> isGenerating targetImage then Some (img_id targetImage)
                            else None)\<rparr>)
                     | None \<Rightarrow> Some (st\<lparr>hoveredImageId := None\<rparr>))))"

definition handleInteractionEnd :: "AppState \<Rightarrow> AppState" where
  "handleInteractionEnd st = st\<lparr>draggingImage := None, isPanning := False\<rparr>"

section \<open>Touch interaction: pinch\<close>

text \<open>\<open>Math.hypot\<close> of two numbers.\<close>

definition hypot :: "real \<Rightarrow> real \<Rightarrow> real" where
  "hypot a b = sqrt (a\<^sup>2 + b\<^sup>2)"

text \<open>
  \<open>handleTouchStart\<close>, on the list \<open>e.touches\<close> of \<open>(clientX, clientY)\<close> pairs.
\<close>

definition handleTouchStart :: "AppState \<Rightarrow> (real \<times> real) list \<Rightarrow> AppState" where
  "handleTouchStart st touches =
     (case canvasRect st of
        None \<Rightarrow> st
      | Some rect \<Rightarrow>
          if length touches = 1 \<and> pinchState st = None then
            handleInteractionStart st (fst (touches ! 0)) (snd (touches ! 0))
          else if length touches = 2 then
            let st1 = st\<lparr>draggingImage := None\<rparr>;
                t1 = touches ! 0;
                t2 = touches ! 1;
                midX = (fst t1 + fst t2) / 2 - rect_left rect;
                midY = (snd t1 + snd t2) / 2 - rect_top rect;
                distance = hypot (fst t1 - fst t2) (snd t1 - snd t2);
                canvasPinch = st1\<lparr>pinchState := Some
                  (CanvasPinch distance (viewTransform st) (midX, midY))\<rparr>
            in (case getImageAtPosition (viewTransform st) (images st) midX midY of
                  Some targetImage \<Rightarrow>
                    if \<not> isGenerating targetImage then
                      st1\<lparr>pinchState := Some
                            (ObjectPinch (img_id targetImage) distance
                               (img_width targetImage) (img_height targetImage)
                               (img_x targetImage + img_width targetImage / 2)
                               (img_y targetImage + img_height targetImage / 2)),
                          images :=
                            filter (\<lambda>img. img_id img \<noteq> img_id targetImage) (images st)
                              @ [targetImage]\<rparr>
                    else canvasPinch
                | None \<Rightarrow> canvasPinch)
          else st)"

text \<open>
  The function mapped over \<open>prev\<close> in the object-pinch branch of \<open>handleTouchMove\<close>.
  \<open>newDistance\<close> is a \<open>Math.hypot\<close>, so it is not negative. With
  \<open>initialDistance = 0 < newDistance\<close> the ratio \<open>scale\<close> is \<open>+Infinity\<close>, the product
  with the initial width is an infinity of the sign of that width, and the two
  comparisons clamp it to \<open>MAX_WIDTH\<close> or to \<open>MIN_WIDTH\<close>.
\<close>

definition pinchScaleImage ::
  "nat \<Rightarrow> real \<Rightarrow> real \<Rightarrow> real \<Rightarrow> real \<Rightarrow> real \<Rightarrow> real \<Rightarrow> ProcessedImage \<Rightarrow> ProcessedImage" where
  "pinchScaleImage pid initialDistance initialWidth initialHeight centerX centerY newDistance img =
     (if img_id img \<noteq> pid then img
      else
        let newWidth =
              (if initialDistance = 0
               then (if initialWidth > 0 then MAX_WIDTH else MIN_WIDTH)
               else
                 let scale = newDistance / initialDistance;
                     newWidth = initialWidth * scale;
                     newWidth = (if newWidth < MIN_WIDTH then MIN_WIDTH else newWidth)
                 in (if newWidth > MAX_WIDTH then MAX_WIDTH else newWidth));
            newHeight = (initialHeight / initialWidth) * newWidth;
            newX = centerX - newWidth / 2;
            newY = centerY - newHeight / 2
        in img\<lparr>img_width := newWidth, img_height := newHeight,
               img_x := newX, img_y := newY\<rparr>)"

text \<open>
  The width that the object-pinch branch computes (lines 852 to 857), with the values of
  IEEE arithmetic that are not finite written out. \<open>newDistance\<close> and
  \<open>initialDistance\<close> are results of \<open>Math.hypot\<close>: not negative, and \<open>+0\<close> when they are
  zero. A comparison with NaN is false.
\<close>

datatype JsNumber = Finite real | PosInfinity | NegInfinity | NaN

definition jsDivide :: "real \<Rightarrow> real \<Rightarrow> JsNumber" where
  "jsDivide a b =
     (if b \<noteq> 0 then Finite (a / b)
      else if a > 0 then PosInfinity else if a < 0 then NegInfinity else NaN)"

fun jsTimes :: "real \<Rightarrow> JsNumber \<Rightarrow> JsNumber" where
  "jsTimes a (Finite b) = Finite (a * b)"
| "jsTimes a PosInfinity = (if a > 0 then PosInfinity else if a < 0 then NegInfinity else NaN)"
| "jsTimes a NegInfinity = (if a > 0 then NegInfinity else if a < 0 then PosInfinity else NaN)"
| "jsTimes a NaN = NaN"

fun jsLess :: "JsNumber \<Rightarrow> real \<Rightarrow> bool" where
  "jsLess (Finite a) c = (a < c)"
| "jsLess NegInfinity c = True"
| "jsLess PosInfinity c = False"
| "jsLess NaN c = False"

fun jsGreater :: "JsNumber \<Rightarrow> real \<Rightarrow> bool" where
  "jsGreater (Finite a) c = (a > c)"
| "jsGreater PosInfinity c = True"
| "jsGreater NegInfinity c = False"
| "jsGreater NaN c = False"

definition pinchWidth :: "real \<Rightarrow> real \<Rightarrow> real \<Rightarrow> JsNumber" where
  "pinchWidth initialDistance initialWidth newDistance =
     (let scale = jsDivide newDistance initialDistance;
          newWidth = jsTimes initialWidth scale;
          newWidth = (if jsLess newWidth MIN_WIDTH then Finite MIN_WIDTH else newWidth)
      in (if jsGreater newWidth MAX_WIDTH then Finite MAX_WIDTH else newWidth))"

text \<open>
  \<open>handleTouchMove\<close>. The result is \<open>None\<close> where a stored number would be infinite or
  NaN: in an object pinch that updates an image, when the initial width is 0 (the
  height is then infinite or NaN) or when both distances are 0 (the ratio is NaN); in a
  canvas pinch, when the initial scale is 0 or both distances are 0. In a canvas pinch
  with \<open>initialDistance = 0 < newDistance\<close> the product of the initial scale and the
  infinite ratio is an infinity of the sign of that scale, which \<open>Math.min\<close> and
  \<open>Math.max\<close> clamp.
\<close>

definition handleTouchMove :: "AppState \<Rightarrow> (real \<times> real) list \<Rightarrow> AppState option" where
  "handleTouchMove st touches =
     (if length touches = 1 \<and> pinchState st = None then
        handleInteractionMove st (fst (touches ! 0)) (snd (touches ! 0))
      else if length touches = 2 \<and> pinchState st \<noteq> None then
        let t1 = touches ! 0;
            t2 = touches ! 1;
            newDistance = hypot (fst t1 - fst t2) (snd t1 - snd t2)
        in (case pinchState st of
              None \<Rightarrow> Some st
            | Some (ObjectPinch pid initialDistance initialWidth initialHeight centerX centerY) \<Rightarrow>
                if list_ex (\<lambda>img. img_id img = pid) (images st) \<and>
                   (initialWidth = 0 \<or> (initialDistance = 0 \<and> newDistance = 0))
                then None
                else Some (st\<lparr>images :=
                  map (pinchScaleImage pid initialDistance initialWidth initialHeight
                         centerX centerY newDistance) (images st)\<rparr>)
            | Some (CanvasPinch initialDistance initialViewTransform initialMidPoint) \<Rightarrow>
                (case canvasRect st of
                   None \<Rightarrow> Some st
                 | Some rect \<Rightarrow>
                     if scale initialViewTransform = 0 \<or>
                        (initialDistance = 0 \<and> newDistance = 0)
                     then None
                     else
                       let newMidPoint =
                             ((fst t1 + fst t2) / 2 - rect_left rect,
                              (snd t1 + snd t2) / 2 - rect_top rect);
                           newScale =
                             (if initialDistance = 0
                              then (if scale initialViewTransform > 0 then MAX_SCALE
                                    else MIN_SCALE)
                              else
                                let scaleRatio = newDistance / initialDistance
                                in max MIN_SCALE
                                     (min MAX_SCALE (scale initialViewTransform * scaleRatio)));
                           panDX = fst newMidPoint - fst initialMidPoint;
                           panDY = snd newMidPoint - snd initialMidPoint;
                           newOffsetX = offsetX initialViewTransform
                             - (fst initialMidPoint - offsetX initialViewTransform)
                               * (newScale / scale initialViewTransform - 1) + panDX;
                           newOffsetY = offsetY initialViewTransform
                             - (snd initialMidPoint - offsetY initialViewTransform)
                               * (newScale / scale initialViewTransform - 1) + panDY
                       in Some (st\<lparr>viewTransform :=
                            \<lparr>scale = newScale, offsetX = newOffsetX,
                             offsetY = newOffsetY\<rparr>\<rparr>)))
      else Some st)"

text \<open>\<open>handleTouchEnd\<close>, on the list \<open>e.touches\<close> of the touches that remain.\<close>

definition handleTouchEnd :: "AppState \<Rightarrow> (real \<times> real) list \<Rightarrow> AppState" where
  "handleTouchEnd st touches =
     (let st1 = handleInteractionEnd st
      in if length touches < 2 then st1\<lparr>pinchState := None\<rparr> else st1)"

section \<open>Sequences of pointer, wheel and touch events\<close>

text \<open>
  The events the canvas element listens to. \<open>handleMouseDown\<close>, \<open>handleMouseMove\<close>
  and \<open>handleMouseUp\<close> call the three interaction handlers.
\<close>

datatype Event =
    WheelEvent real real real  \<comment> \<open>clientX, clientY, deltaY\<close>
  | MouseDown real real
  | MouseMove real real
  | MouseUp
  | TouchStart "(real \<times> real) list"
  | TouchMove "(real \<times> real) list"
  | TouchEnd "(real \<times> real) list"

fun handleEvent :: "AppState \<Rightarrow> Event \<Rightarrow> AppState option" where
  "handleEvent st (WheelEvent clientX clientY deltaY) = handleWheel st clientX clientY deltaY"
| "handleEvent st (MouseDown clientX clientY) = Some (handleInteractionStart st clientX clientY)"
| "handleEvent st (MouseMove clientX clientY) = handleInteractionMove st clientX clientY"
| "handleEvent st MouseUp = Some (handleInteractionEnd st)"
| "handleEvent st (TouchStart touches) = Some (handleTouchStart st touches)"
| "handleEvent st (TouchMove touches) = handleTouchMove st touches"
| "handleEvent st (TouchEnd touches) = Some (handleTouchEnd st touches)"

fun runEvents :: "AppState \<Rightarrow> Event list \<Rightarrow> AppState option" where
  "runEvents st [] = Some st"
| "runEvents st (e # es) =
     (case handleEvent st e of None \<Rightarrow> None | Some st' \<Rightarrow> runEvents st' es)"

section \<open>Actions on the selected object\<close>

text \<open>The memo \<open>selectedImage\<close> and the flag \<open>isActionDisabled\<close>.\<close>

definition selectedImage :: "AppState \<Rightarrow> ProcessedImage option" where
  "selectedImage st =
     (case selectedImageId st of
        None \<Rightarrow> None
      | Some k \<Rightarrow> find (\<lambda>img. img_id img = k) (images st))"

definition isActionDisabled :: "AppState \<Rightarrow> bool" where
  "isActionDisabled st =
     (case selectedImage st of None \<Rightarrow> True | Some img \<Rightarrow> isGenerating img)"

text \<open>\<open>handleDeleteSelected\<close> (the sound it plays is not part of the state).\<close>

definition handleDeleteSelected :: "AppState \<Rightarrow> AppState" where
  "handleDeleteSelected st =
     (if isActionDisabled st \<or> selectedImage st = None then st
      else st\<lparr>images := filter (\<lambda>img. Some (img_id img) \<noteq> selectedImageId st) (images st),
              selectedImageId := None\<rparr>)"

text \<open>
  \<open>handleRegenerateSelected\<close>: the state update; the request it starts completes later
  through \<open>generateFromImage\<close> or \<open>generateFromText\<close>.
\<close>

definition handleRegenerateSelected :: "AppState \<Rightarrow> AppState" where
  "handleRegenerateSelected st =
     (if isActionDisabled st \<or> selectedImage st = None then st
      else (case find (\<lambda>img. Some (img_id img) = selectedImageId st) (images st) of
              None \<Rightarrow> st
            | Some imageToRegen \<Rightarrow>
                st\<lparr>images :=
                  map (\<lambda>img. if Some (img_id img) = selectedImageId st
                         then img\<lparr>isGenerating := True, generatingPrompt := None\<rparr>
                         else img) (images st)\<rparr>))"

text \<open>
  \<open>handleFlipSelected\<close>. \<open>!img.flippedHorizontally\<close> is true for \<open>undefined\<close> and
  \<open>false\<close>.
\<close>

definition handleFlipSelected :: "AppState \<Rightarrow> AppState" where
  "handleFlipSelected st =
     (if isActionDisabled st \<or> selectedImage st = None then st
      else (case find (\<lambda>img. Some (img_id img) = selectedImageId st) (images st) of
              None \<Rightarrow> st
            | Some imageToFlip \<Rightarrow>
                st\<lparr>images :=
                  map (\<lambda>img. if Some (img_id img) = selectedImageId st
                         then img\<lparr>flippedHorizontally :=
                                   Some (flippedHorizontally img \<noteq> Some True)\<rparr>
                         else img) (images st)\<rparr>))"

text \<open>\<open>handleDuplicateSelected\<close> (the copy of the cache entry is not part of the state).\<close>

definition handleDuplicateSelected :: "AppState \<Rightarrow> AppState" where
  "handleDuplicateSelected st =
     (if isActionDisabled st \<or> selectedImage st = None then st
      else (case find (\<lambda>img. Some (img_id img) = selectedImageId st) (images st) of
              None \<Rightarrow> st
            | Some imageToDuplicate \<Rightarrow>
                let newId = nextId st;
                    duplicatedImage = imageToDuplicate
                      \<lparr>img_id := newId,
                       img_x := img_x imageToDuplicate + 40,
                       img_y := img_y imageToDuplicate + 20\<rparr>
                in st\<lparr>nextId := nextId st + 1,
                      images := images st @ [duplicatedImage],
                      selectedImageId := Some newId\<rparr>))"

section \<open>Keyboard\<close>

text \<open>
  \<open>handleKeyDown\<close>, on \<open>e.key\<close> and \<open>document.activeElement?.tagName\<close>. A string is
  truthy when it is present and not empty. With a scale of 0 the step of an arrow key
  is infinite: \<open>None\<close>.
\<close>

definition handleKeyDown :: "AppState \<Rightarrow> string \<Rightarrow> string option \<Rightarrow> AppState option" where
  "handleKeyDown st key activeTagName =
     (if activeTagName = Some ''INPUT'' \<or> activeTagName = Some ''TEXTAREA'' then Some st
      else if key = ''m'' \<and> selectedImageId st \<noteq> None then
        Some (st\<lparr>images :=
          map (\<lambda>img. if Some (img_id img) = selectedImageId st \<and>
                         originalImageUrl img \<noteq> None \<and> originalImageUrl img \<noteq> Some []
                      then img\<lparr>showOriginal := Some (showOriginal img \<noteq> Some True)\<rparr>
                      else img) (images st)\<rparr>)
      else if selectedImageId st = None \<or> isActionDisabled st then Some st
      else if key \<in> set [''ArrowUp'', ''ArrowDown'', ''ArrowLeft'', ''ArrowRight''] then
        (case find (\<lambda>img. Some (img_id img) = selectedImageId st) (images st) of
           None \<Rightarrow> Some st
         | Some selectedImg \<Rightarrow>
             if scale (viewTransform st) = 0 then None
             else
               let moveStep = MOVE_AMOUNT / scale (viewTransform st);
                   newX = (if key = ''ArrowLeft'' then img_x selectedImg - moveStep
                           else if key = ''ArrowRight'' then img_x selectedImg + moveStep
                           else img_x selectedImg);
                   newY = (if key = ''ArrowUp'' then img_y selectedImg - moveStep
                           else if key = ''ArrowDown'' then img_y selectedImg + moveStep
                           else img_y selectedImg)
               in Some (st\<lparr>images :=
                    map (\<lambda>img. if Some (img_id img) = selectedImageId st
                           then img\<lparr>img_x := newX, img_y := newY\<rparr>
                           else img) (images st)\<rparr>))
      else if key = ''Delete'' \<or> key = ''Backspace'' then Some (handleDeleteSelected st)
      else if key = ''r'' then Some (handleRegenerateSelected st)
      else if key = ''f'' then Some (handleFlipSelected st)
      else if key = ''d'' then Some (handleDuplicateSelected st)
      else Some st)"

section \<open>Completion of a generation\<close>

text \<open>
  What the awaited calls in the \<open>try\<close> block of \<open>generateFromImage\<close> and
  \<open>generateFromText\<close> come to: the generated image's URL, the transparent image and the
  content bounds from \<open>processImageForTransparency\<close>, and the remix suggestions; or an
  exception from one of them.
\<close>

datatype PipelineOutcome =
    PipelineOk string HTMLImageElement Bounds "string list"
      \<comment> \<open>imageUrl, transparentImage, contentBounds, suggestions\<close>
  | PipelineFailed

text \<open>
  The state update of \<open>generateFromImage\<close> for the object \<open>id\<close>, applied to the scene
  \<open>prev\<close> current at completion. The aspect ratio is the quotient of the transparent
  image's width and height: with height 0 it is infinite and the new height is 0, as
  the quotients below give; with width 0 an updated image would get an infinite or NaN
  height: \<open>None\<close>.
\<close>

definition generateFromImage ::
  "nat \<Rightarrow> PipelineOutcome \<Rightarrow> ProcessedImage list \<Rightarrow> ProcessedImage list option" where
  "generateFromImage ident outcome prev =
     (case outcome of
        PipelineOk imageUrl transparentImage bounds suggestions \<Rightarrow>
          if el_width transparentImage = 0 \<and> list_ex (\<lambda>img. img_id img = ident) prev
          then None
          else
            let aspectRatio = real (el_width transparentImage) / real (el_height transparentImage)
            in Some (map (\<lambda>img.
                 if img_id img \<noteq> ident then img
                 else
                   let newWidth = IMAGE_WIDTH;
                       newHeight = IMAGE_WIDTH / aspectRatio;
                       currentCenterX = img_x img + img_width img / 2;
                       currentCenterY = img_y img + img_height img / 2
                   in img\<lparr>processedImage := Some transparentImage,
                          originalImageUrl := Some imageUrl,
                          showOriginal := Some False,
                          contentBounds := bounds,
                          img_width := newWidth,
                          img_height := newHeight,
                          img_x := currentCenterX - newWidth / 2,
                          img_y := currentCenterY - newHeight / 2,
                          isGenerating := False,
                          sourcePreviewUrl := None,
                          remixSuggestions := Some suggestions,
                          generatingPrompt := None\<rparr>) prev)
      | PipelineFailed \<Rightarrow> Some (filter (\<lambda>img. img_id img \<noteq> ident) prev))"

text \<open>The same for \<open>generateFromText\<close>, which leaves two fields more as they are.\<close>

definition generateFromText ::
  "nat \<Rightarrow> PipelineOutcome \<Rightarrow> ProcessedImage list \<Rightarrow> ProcessedImage list option" where
  "generateFromText ident outcome prev =
     (case outcome of
        PipelineOk imageUrl transparentImage bounds suggestions \<Rightarrow>
          if el_width transparentImage = 0 \<and> list_ex (\<lambda>img. img_id img = ident) prev
          then None
          else
            let aspectRatio = real (el_width transparentImage) / real (el_height transparentImage)
            in Some (map (\<lambda>img.
                 if img_id img \<noteq> ident then img
                 else
                   let newWidth = IMAGE_WIDTH;
                       newHeight = IMAGE_WIDTH / aspectRatio;
                       currentCenterX = img_x img + img_width img / 2;
                       currentCenterY = img_y img + img_height img / 2
                   in img\<lparr>processedImage := Some transparentImage,
                          originalImageUrl := Some imageUrl,
                          showOriginal := Some False,
                          contentBounds := bounds,
                          img_width := newWidth,
                          img_height := newHeight,
                          img_x := currentCenterX - newWidth / 2,
                          img_y := currentCenterY - newHeight / 2,
                          isGenerating := False,
                          remixSuggestions := Some suggestions\<rparr>) prev)
      | PipelineFailed \<Rightarrow> Some (filter (\<lambda>img. img_id img \<noteq> ident) prev))"

section \<open>Transparency processor\<close>

text \<open>
  The \<open>ImageData\<close> that \<open>getImageData\<close> returns: the width and the height of the
  canvas and the RGBA bytes (a \<open>Uint8ClampedArray\<close>), four for each pixel, row by row.
\<close>

record ImageData =
  imgd_width :: nat
  imgd_height :: nat
  imgd_data :: "8 word list"

text \<open>\<open>interface ImageProcessingResult\<close>; the image is given by its pixels.\<close>

record ImageProcessingResult =
  res_transparentImage :: ImageData
  res_contentBounds :: Bounds

datatype ProcessingError = ImageLoadError | NoContext2d | TransparentImageLoadError

text \<open>
  What the browser contributes to one call of \<open>processImageForTransparency\<close>: the
  decoded image (or \<open>img.onerror\<close>), whether \<open>getContext('2d')\<close> gives a context,
  whether \<open>getImageData\<close> may read the canvas, and whether the image made from
  \<open>canvas.toDataURL()\<close> loads.
\<close>

record TransparencyInput =
  decoded :: "ImageData option"
  contextAvailable :: bool
  pixelsReadable :: bool
  reencodeLoads :: bool

text \<open>
  The first loop, \<open>for (let i = 0; i < data.length; i += 4)\<close>. A read beyond the end
  of the array gives \<open>undefined\<close>, the distance is then NaN and the comparison fails; a
  write beyond the end does nothing, as \<open>list_update\<close> does.
\<close>

function removeBackground ::
  "int \<Rightarrow> int \<Rightarrow> int \<Rightarrow> int \<Rightarrow> 8 word list \<Rightarrow> nat \<Rightarrow> 8 word list" where
  "removeBackground colorDistanceThresholdSquared bgR bgG bgB d i =
     (if i < length d then
        removeBackground colorDistanceThresholdSquared bgR bgG bgB
          (if i + 2 < length d \<and>
              (uint (d ! i) - bgR)\<^sup>2 + (uint (d ! (i + 1)) - bgG)\<^sup>2
                + (uint (d ! (i + 2)) - bgB)\<^sup>2 < colorDistanceThresholdSquared
           then d[i + 3 := 0] else d)
          (i + 4)
      else d)"
  by pat_completeness auto
termination
  by (relation "measure (\<lambda>(t, r, g, b, d, i). length d - i)") auto

text \<open>
  The bounding-box loops. The box is \<open>(minX, minY, maxX, maxY)\<close>; \<open>alpha > 0\<close> fails
  for an \<open>undefined\<close> alpha.
\<close>

function scanRow ::
  "nat \<Rightarrow> 8 word list \<Rightarrow> nat \<Rightarrow> nat \<Rightarrow> int \<times> int \<times> int \<times> int \<Rightarrow> int \<times> int \<times> int \<times> int" where
  "scanRow w d y x (minX, minY, maxX, maxY) =
     (if x < w then
        scanRow w d y (x + 1)
          (if (y * w + x) * 4 + 3 < length d \<and> uint (d ! ((y * w + x) * 4 + 3)) > 0
           then (if int x < minX then int x else minX,
                 if int y < minY then int y else minY,
                 if int x > maxX then int x else maxX,
                 if int y > maxY then int y else maxY)
           else (minX, minY, maxX, maxY))
      else (minX, minY, maxX, maxY))"
  by pat_completeness auto
termination
  by (relation "measure (\<lambda>(w, d, y, x, box). w - x)") auto

function scanRows ::
  "nat \<Rightarrow> nat \<Rightarrow> 8 word list \<Rightarrow> nat \<Rightarrow> int \<times> int \<times> int \<times> int \<Rightarrow> int \<times> int \<times> int \<times> int" where
  "scanRows w h d y box =
     (if y < h then scanRows w h d (y + 1) (scanRow w d y 0 box) else box)"
  by pat_completeness auto
termination
  by (relation "measure (\<lambda>(w, h, d, y, box). h - y)") auto

text \<open>The choice between the tight box and the fallback.\<close>

definition boundsOfBox :: "nat \<Rightarrow> nat \<Rightarrow> int \<times> int \<times> int \<times> int \<Rightarrow> Bounds" where
  "boundsOfBox w h box =
     (case box of (minX, minY, maxX, maxY) \<Rightarrow>
        if maxX \<ge> minX \<and> maxY \<ge> minY
        then \<lparr>b_x = real_of_int minX, b_y = real_of_int minY,
              b_width = real_of_int (maxX - minX + 1),
              b_height = real_of_int (maxY - minY + 1)\<rparr>
        else \<lparr>b_x = 0, b_y = 0, b_width = real w, b_height = real h\<rparr>)"

text \<open>
  The body of \<open>img.onload\<close> between \<open>getImageData\<close> and \<open>putImageData\<close>, for a
  threshold \<open>threshold\<close>: the processed pixels and the content bounds. With fewer than
  three bytes the background colour is \<open>undefined\<close> and no distance is below the
  threshold.
\<close>

definition keyOutBackground :: "int \<Rightarrow> ImageData \<Rightarrow> ImageProcessingResult" where
  "keyOutBackground threshold imageData =
     (let d = imgd_data imageData;
          w = imgd_width imageData;
          h = imgd_height imageData;
          colorDistanceThresholdSquared = threshold * threshold;
          d' = (if 2 < length d
                then removeBackground colorDistanceThresholdSquared
                       (uint (d ! 0)) (uint (d ! 1)) (uint (d ! 2)) d 0
                else d);
          box = scanRows w h d' 0 (int w, int h, -1, -1)
      in \<lparr>res_transparentImage = imageData\<lparr>imgd_data := d'\<rparr>,
          res_contentBounds = boundsOfBox w h box\<rparr>)"

text \<open>
  \<open>processImageForTransparency\<close> with the threshold as a parameter. \<open>getImageData\<close>
  throws for a canvas of width or height 0 and for a canvas it may not read; the
  \<open>catch\<close> block then resolves with the original image and its full extent.
\<close>

definition processWithThreshold ::
  "int \<Rightarrow> TransparencyInput \<Rightarrow> ProcessingError + ImageProcessingResult" where
  "processWithThreshold threshold inp =
     (case decoded inp of
        None \<Rightarrow> Inl ImageLoadError
      | Some img \<Rightarrow>
          if \<not> contextAvailable inp then Inl NoContext2d
          else if imgd_width img = 0 \<or> imgd_height img = 0 \<or> \<not> pixelsReadable inp
          then Inr \<lparr>res_transparentImage = img,
                    res_contentBounds =
                      \<lparr>b_x = 0, b_y = 0, b_width = real (imgd_width img),
                       b_height = real (imgd_height img)\<rparr>\<rparr>
          else if reencodeLoads inp then Inr (keyOutBackground threshold img)
          else Inl TransparentImageLoadError)"

definition processImageForTransparency ::
  "TransparencyInput \<Rightarrow> ProcessingError + ImageProcessingResult" where
  "processImageForTransparency inp = processWithThreshold COLOR_DISTANCE_THRESHOLD inp"

section \<open>Remix suggestions (geminiService.ts)\<close>

text \<open>A value that \<open>JSON.parse\<close> returns.\<close>

datatype JsonValue =
    JNull
  | JBool bool
  | JNumber real
  | JString string
  | JArray "JsonValue list"
  | JObject "(string \<times> JsonValue) list"

text \<open>
  What the environment contributes to one call of \<open>getRemixSuggestions\<close>: the value of
  \<open>process.env.API_KEY\<close>, the result of \<open>fileToBase64\<close> (or its rejection), and the
  outcome of \<open>ai.models.generateContent\<close>: an exception, or a response whose \<open>text\<close>
  may be \<open>undefined\<close>.
\<close>

datatype RequestOutcome = RequestFailed | Response "string option"

record RemixEnv =
  apiKey :: "string option"
  fileBase64 :: "string option"
  request :: RequestOutcome

datatype ServiceError = ApiKeyNotSet | FileReadError

text \<open>
  \<open>String.prototype.trim\<close> on ASCII white space, for the examples (the method also
  strips the other white space and line terminators of Unicode).
\<close>

definition isSpace :: "char \<Rightarrow> bool" where
  "isSpace c \<longleftrightarrow> c \<in> set [CHR '' '', CHR 0x09, CHR 0x0A, CHR 0x0B, CHR 0x0C, CHR 0x0D]"

definition trimAscii :: "string \<Rightarrow> string" where
  "trimAscii s = rev (dropWhile isSpace (rev (dropWhile isSpace s)))"

text \<open>
  \<open>getRemixSuggestions\<close>. \<open>String.prototype.trim\<close> and \<open>JSON.parse\<close> are parameters:
  \<open>None\<close> is the \<open>SyntaxError\<close> of the parser. \<open>Inl\<close> is an exception that reaches the
  caller; every exception inside the \<open>try\<close> block (a failed request, \<open>trim\<close> of
  \<open>undefined\<close>, a syntax error, a property of \<open>null\<close>) is caught and gives the empty
  list.
\<close>

definition getRemixSuggestions ::
  "(string \<Rightarrow> string) \<Rightarrow> (string \<Rightarrow> JsonValue option) \<Rightarrow> RemixEnv \<Rightarrow>
   ServiceError + JsonValue list" where
  "getRemixSuggestions trim parse env =
     (if apiKey env = None \<or> apiKey env = Some [] then Inl ApiKeyNotSet
      else (case fileBase64 env of
              None \<Rightarrow> Inl FileReadError
            | Some base64ImageData \<Rightarrow>
                (case request env of
                   RequestFailed \<Rightarrow> Inr []
                 | Response None \<Rightarrow> Inr []
                 | Response (Some text) \<Rightarrow>
                     (case parse (trim text) of
                        None \<Rightarrow> Inr []
                      | Some JNull \<Rightarrow> Inr []
                      | Some (JObject members) \<Rightarrow>
                          (case map_of members ''prompts'' of
                             Some (JArray prompts) \<Rightarrow>
                               if length prompts > 0 then Inr (take 5 prompts) else Inr []
                           | _ \<Rightarrow> Inr [])
                      | Some _ \<Rightarrow> Inr []))))"

section \<open>Predicates on scenes and events used in the statements\<close>

definition widthInRange :: "ProcessedImage \<Rightarrow> bool" where
  "widthInRange img \<longleftrightarrow> MIN_WIDTH \<le> img_width img \<and> img_width img \<le> MAX_WIDTH"

definition validScale :: "ViewTransform \<Rightarrow> bool" where
  "validScale vt \<longleftrightarrow> MIN_SCALE \<le> scale vt \<and> scale vt \<le> MAX_SCALE"

text \<open>
  A pinch state as \<open>handleTouchStart\<close> builds it from two distinct touch points, on a
  scene whose widths and scale are in range.
\<close>

fun pinchOk :: "PinchState option \<Rightarrow> bool" where
  "pinchOk None = True"
| "pinchOk (Some (ObjectPinch pid initialDistance initialWidth initialHeight centerX centerY)) =
     (initialDistance > 0 \<and> MIN_WIDTH \<le> initialWidth \<and> initialWidth \<le> MAX_WIDTH)"
| "pinchOk (Some (CanvasPinch initialDistance initialViewTransform initialMidPoint)) =
     (initialDistance > 0 \<and> validScale initialViewTransform)"

definition sceneOk :: "AppState \<Rightarrow> bool" where
  "sceneOk st \<longleftrightarrow>
     list_all widthInRange (images st) \<and> validScale (viewTransform st) \<and>
     pinchOk (pinchState st)"

text \<open>The objects of id \<open>k\<close> have their widths in range.\<close>

definition objectInRange :: "nat \<Rightarrow> AppState \<Rightarrow> bool" where
  "objectInRange k st \<longleftrightarrow>
     (\<forall>img \<in> set (images st). img_id img = k \<longrightarrow> widthInRange img)"

text \<open>A two-finger gesture starts with its two touch points apart.\<close>

fun touchesApart :: "Event \<Rightarrow> bool" where
  "touchesApart (TouchStart touches) =
     (if length touches = 2 then touches ! 0 \<noteq> touches ! 1 else True)"
| "touchesApart _ = True"

text \<open>
  Predicates on pixel data. A well-formed \<open>ImageData\<close> has four bytes for each pixel
  of a canvas that is not empty.
\<close>

definition wellFormed :: "ImageData \<Rightarrow> bool" where
  "wellFormed im \<longleftrightarrow>
     0 < imgd_width im \<and> 0 < imgd_height im \<and>
     length (imgd_data im) = 4 * imgd_width im * imgd_height im"

text \<open>The index in the data of the first byte of pixel \<open>(x, y)\<close>.\<close>

definition pixelIndex :: "ImageData \<Rightarrow> nat \<Rightarrow> nat \<Rightarrow> nat" where
  "pixelIndex im x y = (y * imgd_width im + x) * 4"

text \<open>
  The squared Euclidean distance between the colour of pixel \<open>(x, y)\<close> and the colour
  of the top-left pixel.
\<close>

definition distanceToTopLeft :: "ImageData \<Rightarrow> nat \<Rightarrow> nat \<Rightarrow> int" where
  "distanceToTopLeft im x y =
     (uint (imgd_data im ! pixelIndex im x y) - uint (imgd_data im ! 0))\<^sup>2
     + (uint (imgd_data im ! (pixelIndex im x y + 1)) - uint (imgd_data im ! 1))\<^sup>2
     + (uint (imgd_data im ! (pixelIndex im x y + 2)) - uint (imgd_data im ! 2))\<^sup>2"

text \<open>The pixels of an image whose alpha is not 0.\<close>

definition opaquePixels :: "ImageData \<Rightarrow> (nat \<times> nat) set" where
  "opaquePixels im =
     {(x, y). x < imgd_width im \<and> y < imgd_height im \<and>
              imgd_data im ! (pixelIndex im x y + 3) \<noteq> 0}"

text \<open>The smallest rectangle of whole pixels around a set of pixels.\<close>

definition tightBounds :: "(nat \<times> nat) set \<Rightarrow> Bounds" where
  "tightBounds S =
     \<lparr>b_x = real (Min (fst ` S)), b_y = real (Min (snd ` S)),
      b_width = real (Max (fst ` S)) - real (Min (fst ` S)) + 1,
      b_height = real (Max (snd ` S)) - real (Min (snd ` S)) + 1\<rparr>"

definition fullExtent :: "ImageData \<Rightarrow> Bounds" where
  "fullExtent im =
     \<lparr>b_x = 0, b_y = 0, b_width = real (imgd_width im), b_height = real (imgd_height im)\<rparr>"

text \<open>One rectangle lies inside another.\<close>

definition boundsInside :: "Bounds \<Rightarrow> Bounds \<Rightarrow> bool" where
  "boundsInside inner outer \<longleftrightarrow>
     b_x outer \<le> b_x inner \<and> b_y outer \<le> b_y inner \<and>
     b_x inner + b_width inner \<le> b_x outer + b_width outer \<and>
     b_y inner + b_height inner \<le> b_y outer + b_height outer"

text \<open>
  The invariant of the bounding-box loops: the box \<open>(minX, minY, maxX, maxY)\<close> after
  the opaque pixels \<open>P\<close> have been seen.
\<close>

definition boxAround :: "nat \<Rightarrow> nat \<Rightarrow> (nat \<times> nat) set \<Rightarrow> int \<times> int \<times> int \<times> int \<Rightarrow> bool" where
  "boxAround w h P box =
     (case box of (minX, minY, maxX, maxY) \<Rightarrow>
        (\<forall>p \<in> P. minX \<le> int (fst p) \<and> int (fst p) \<le> maxX \<and>
                  minY \<le> int (snd p) \<and> int (snd p) \<le> maxY) \<and>
        (if P = {} then box = (int w, int h, -1, -1)
         else (\<exists>p \<in> P. int (fst p) = minX) \<and> (\<exists>p \<in> P. int (fst p) = maxX) \<and>
              (\<exists>p \<in> P. int (snd p) = minY) \<and> (\<exists>p \<in> P. int (snd p) = maxY)))"

text \<open>
  The opaque pixels that the bounding-box loops have still to see: those of row \<open>y\<close>
  from column \<open>x\<close> on, and those of the rows from \<open>y\<close> on.
\<close>

definition rowFrom :: "nat \<Rightarrow> 8 word list \<Rightarrow> nat \<Rightarrow> nat \<Rightarrow> (nat \<times> nat) set" where
  "rowFrom w d y x =
     {p. snd p = y \<and> x \<le> fst p \<and> fst p < w \<and> d ! ((y * w + fst p) * 4 + 3) \<noteq> 0}"

definition rowsFrom :: "nat \<Rightarrow> nat \<Rightarrow> 8 word list \<Rightarrow> nat \<Rightarrow> (nat \<times> nat) set" where
  "rowsFrom w h d y =
     {p. y \<le> snd p \<and> snd p < h \<and> fst p < w \<and> d ! ((snd p * w + fst p) * 4 + 3) \<noteq> 0}"



text \<open>An object without its flip flag: two objects that differ in the flag only agree on it.\<close>

definition eraseFlip :: "ProcessedImage \<Rightarrow> ProcessedImage" where
  "eraseFlip img = img\<lparr>flippedHorizontally := None\<rparr>"

text \<open>The direction of an arrow key, with the y axis pointing down.\<close>

definition arrowDirection :: "string \<Rightarrow> real \<times> real" where
  "arrowDirection key =
     (if key = ''ArrowUp'' then (0, -1)
      else if key = ''ArrowDown'' then (0, 1)
      else if key = ''ArrowLeft'' then (-1, 0)
      else (1, 0))"

text \<open>
  The bound on the error of a round trip through the two conversions in double
  arithmetic, for one coordinate \<open>p\<close> with its offset: four roundings of relative
  error \<open>2 ^ (- 53)\<close>, and the spacing of the subnormal numbers.
\<close>

definition roundingError :: "real \<Rightarrow> real \<Rightarrow> real \<Rightarrow> real" where
  "roundingError s off p = 2 powi (- 50) * (\<bar>p\<bar> + \<bar>off\<bar> / s) + 2 powi (- 1070)"

section \<open>Example inputs\<close>

text \<open>A finished object of 100 by 100 whose 10 by 10 image has content in \<open>[2, 8] \<times> [2, 8]\<close>.\<close>

definition sprite :: ProcessedImage where
  "sprite =
     \<lparr>img_id = 0, sourceFile = None, sourceText = Some ''cat'',
      processedImage = Some \<lparr>el_src = ''data:image/png;base64,AA'', el_width = 10, el_height = 10\<rparr>,
      originalImageUrl = Some ''data:image/png;base64,AA'', showOriginal = Some False,
      img_x = 0, img_y = 0, img_width = 100, img_height = 100,
      isGenerating = False,
      contentBounds = \<lparr>b_x = 2, b_y = 2, b_width = 6, b_height = 6\<rparr>,
      sourcePreviewUrl = None, flippedHorizontally = Some False, isVariation = Some False,
      remixSuggestions = Some [], generatingPrompt = None\<rparr>"


definition exampleView :: ViewTransform where
  "exampleView = \<lparr>scale = 2, offsetX = 10, offsetY = 20\<rparr>"

definition exampleState :: AppState where
  "exampleState =
     \<lparr>images = [sprite], draggingImage = None, hoveredImageId = None,
      selectedImageId = Some 0, isPanning = False, panStart = (0, 0),
      viewTransform = exampleView, pinchState = None,
      canvasRect = Some \<lparr>rect_left = 0, rect_top = 0\<rparr>, nextId = 1\<rparr>"

definition emptyCanvas :: AppState where
  "emptyCanvas =
     \<lparr>images = [], draggingImage = None, hoveredImageId = None,
      selectedImageId = None, isPanning = False, panStart = (0, 0),
      viewTransform = \<lparr>scale = 3, offsetX = 0, offsetY = 0\<rparr>, pinchState = None,
      canvasRect = Some \<lparr>rect_left = 0, rect_top = 0\<rparr>, nextId = 0\<rparr>"

definition exampleEvents :: "Event list" where
  "exampleEvents =
     [WheelEvent 110 120 (-1),
      TouchStart [(90, 120), (130, 120)],
      TouchMove [(-90, 120), (310, 120)],
      TouchEnd []]"

text \<open>
  A view of scale 1.5 without offsets; the point whose \<open>x\<close> is the double written
  \<open>0.7\<close>; the doubles \<open>1.0499999999999998\<close> and \<open>0.6999999999999998\<close>.
\<close>

definition zoomedView :: ViewTransform where
  "zoomedView = \<lparr>scale = 3 / 2, offsetX = 0, offsetY = 0\<rparr>"

definition pointSeven :: "real \<times> real" where
  "pointSeven = (6305039478318694 / 9007199254740992, 0)"

definition pointSevenOnScreen :: "real \<times> real" where
  "pointSevenOnScreen = (4728779608739020 / 4503599627370496, 0)"

definition pointSevenReturned :: "real \<times> real" where
  "pointSevenReturned = (6305039478318693 / 9007199254740992, 0)"

text \<open>Two fingers on one point of the screen, over the middle of the example object.\<close>

definition coincidentTouches :: "(real \<times> real) list" where
  "coincidentTouches = [(110, 120), (110, 120)]"

text \<open>
  Three pixels in a row: a white background, a pixel at squared distance 75 from it, and
  a red one.
\<close>

definition whiteBackdrop :: ImageData where
  "whiteBackdrop =
     \<lparr>imgd_width = 3, imgd_height = 1,
      imgd_data = [255, 255, 255, 255,  250, 250, 250, 255,  255, 0, 0, 255]\<rparr>"

text \<open>
  Three pixels in a row: a black background, a pixel at squared distance 100 from it, and
  one at squared distance 10000.
\<close>

definition darkRamp :: ImageData where
  "darkRamp =
     \<lparr>imgd_width = 3, imgd_height = 1,
      imgd_data = [0, 0, 0, 255,  10, 0, 0, 255,  100, 0, 0, 255]\<rparr>"

text \<open>A browser in which every step of the processing succeeds.\<close>

definition loaded :: "ImageData \<Rightarrow> TransparencyInput" where
  "loaded im =
     \<lparr>decoded = Some im, contextAvailable = True, pixelsReadable = True,
      reencodeLoads = True\<rparr>"

definition noApiKey :: RemixEnv where
  "noApiKey =
     \<lparr>apiKey = None, fileBase64 = Some ''AA'',
      request = Response (Some ''body'')\<rparr>"

text \<open>The file cannot be read: \<open>fileToBase64\<close> rejects.\<close>

definition unreadableFile :: RemixEnv where
  "unreadableFile =
     \<lparr>apiKey = Some ''k'', fileBase64 = None, request = Response (Some ''six'')\<rparr>"

definition failingRequest :: RemixEnv where
  "failingRequest = \<lparr>apiKey = Some ''k'', fileBase64 = Some ''AA'', request = RequestFailed\<rparr>"

text \<open>
  A response with six prompts, a response whose one prompt is a number, and a parser
  that reads the two.
\<close>

definition sixPrompts :: RemixEnv where
  "sixPrompts =
     \<lparr>apiKey = Some ''k'', fileBase64 = Some ''AA'', request = Response (Some '' six '')\<rparr>"

definition numberPrompt :: RemixEnv where
  "numberPrompt =
     \<lparr>apiKey = Some ''k'', fileBase64 = Some ''AA'', request = Response (Some ''seven'')\<rparr>"

definition parseExample :: "string \<Rightarrow> JsonValue option" where
  "parseExample s =
     (if s = ''six''
      then Some (JObject [(''prompts'',
             JArray [JString ''a'', JString ''b'', JString ''c'', JString ''d'',
                     JString ''e'', JString ''f''])])
      else if s = ''seven''
      then Some (JObject [(''prompts'', JArray [JNumber 7])])
      else None)"

declare removeBackground.simps [simp del]
declare scanRow.simps [simp del]
declare scanRows.simps [simp del]

section \<open>The transparency processor: background removal\<close>

lemma length_removeBackground:
  "length (removeBackground T r g b d i) = length d"
proof (induction T r g b d i rule: removeBackground.induct)
  case (1 T r g b d i)
  show ?case
  proof (cases "i < length d")
    case True
    then show ?thesis
      using "1.IH" by (subst removeBackground.simps) (simp split: if_splits)
  next
    case False
    then show ?thesis by (subst removeBackground.simps) simp
  qed
qed

text \<open>
  After the loop has run from a pixel boundary \<open>i\<close>, exactly the alpha bytes from \<open>i\<close>
  on whose pixel is nearer to the background than the threshold are 0.
\<close>

lemma nth_removeBackground:
  assumes "i mod 4 = 0" and "length d mod 4 = 0" and "k < length d"
  shows "removeBackground T r g b d i ! k =
           (if k mod 4 = 3 \<and> i \<le> k \<and>
               (uint (d ! (k - 3)) - r)\<^sup>2 + (uint (d ! (k - 2)) - g)\<^sup>2
                 + (uint (d ! (k - 1)) - b)\<^sup>2 < T
            then 0 else d ! k)"
  using assms
proof (induction T r g b d i arbitrary: k rule: removeBackground.induct)
  case (1 T r g b d i)
  define c where "c \<longleftrightarrow> i + 2 < length d \<and>
              (uint (d ! i) - r)\<^sup>2 + (uint (d ! (i + 1)) - g)\<^sup>2
                + (uint (d ! (i + 2)) - b)\<^sup>2 < T"
  define d' where "d' = (if c then d[i + 3 := 0] else d)"
  show ?case
  proof (cases "i < length d")
    case False
    with "1.prems" show ?thesis
      by (subst removeBackground.simps) simp
  next
    case True
    with "1.prems" have i3: "i + 3 < length d" by presburger
    have step: "removeBackground T r g b d i = removeBackground T r g b d' (i + 4)"
      using True by (subst removeBackground.simps) (simp add: d'_def c_def)
    have len: "length d' = length d" by (simp add: d'_def)
    have IH: "removeBackground T r g b d' (i + 4) ! k =
           (if k mod 4 = 3 \<and> i + 4 \<le> k \<and>
               (uint (d' ! (k - 3)) - r)\<^sup>2 + (uint (d' ! (k - 2)) - g)\<^sup>2
                 + (uint (d' ! (k - 1)) - b)\<^sup>2 < T
            then 0 else d' ! k)"
    proof -
      from "1.prems"(1) have a: "(i + 4) mod 4 = 0" by presburger
      from "1.prems"(2) len have b: "length d' mod 4 = 0" by simp
      from "1.prems"(3) len have c: "k < length d'" by simp
      show ?thesis
        by (rule "1.IH" [OF True, folded c_def, folded d'_def, OF a b c])
    qed
    have same: "d' ! j = d ! j" if "j \<noteq> i + 3" for j
      using that by (simp add: d'_def)
    have at: "d' ! (i + 3) = (if c then 0 else d ! (i + 3))"
      using i3 by (simp add: d'_def)
    show ?thesis
    proof (cases "k mod 4 = 3 \<and> i + 4 \<le> k")
      case True
      with "1.prems"(1)
      have "k - 3 \<noteq> i + 3 \<and> k - 2 \<noteq> i + 3 \<and> k - 1 \<noteq> i + 3 \<and> k \<noteq> i + 3"
        by presburger
      then have "d' ! (k - 3) = d ! (k - 3)" "d' ! (k - 2) = d ! (k - 2)"
        "d' ! (k - 1) = d ! (k - 1)" "d' ! k = d ! k"
        using same by blast+
      with True show ?thesis
        unfolding step IH by simp
    next
      case False
      show ?thesis
      proof (cases "k = i + 3")
        case True
        with "1.prems" have k3: "k mod 4 = 3" by presburger
        have "c \<longleftrightarrow> (uint (d ! (k - 3)) - r)\<^sup>2 + (uint (d ! (k - 2)) - g)\<^sup>2
                 + (uint (d ! (k - 1)) - b)\<^sup>2 < T"
          using i3 True by (simp add: c_def)
        with True k3 at show ?thesis
          unfolding step IH by simp
      next
        case kne: False
        with False "1.prems" have "\<not> (k mod 4 = 3 \<and> i \<le> k)" by presburger
        with False kne same [of k] show ?thesis
          unfolding step IH by auto
      qed
    qed
  qed
qed

lemma pixel_index_bound:
  fixes x y w h :: nat
  assumes "x < w" and "y < h"
  shows "(y * w + x) * 4 + 3 < 4 * w * h"
proof -
  from assms have "y * w + x < y * w + w" by simp
  also have "\<dots> = (y + 1) * w" by simp
  also from assms have "\<dots> \<le> h * w" by (intro mult_le_mono1) simp
  finally have "y * w + x + 1 \<le> w * h" by (simp add: mult.commute)
  then have "4 * (y * w + x + 1) \<le> 4 * (w * h)" by (rule mult_le_mono2)
  then show ?thesis by (simp add: algebra_simps)
qed

lemma keyOutBackground_shape:
  "imgd_width (res_transparentImage (keyOutBackground t im)) = imgd_width im \<and>
   imgd_height (res_transparentImage (keyOutBackground t im)) = imgd_height im \<and>
   length (imgd_data (res_transparentImage (keyOutBackground t im))) = length (imgd_data im)"
  by (simp add: keyOutBackground_def Let_def length_removeBackground)

lemma keyOutBackground_pixels:
  assumes wf: "wellFormed im" and x: "x < imgd_width im" and y: "y < imgd_height im"
  shows "imgd_data (res_transparentImage (keyOutBackground t im)) ! pixelIndex im x y
           = imgd_data im ! pixelIndex im x y \<and>
         imgd_data (res_transparentImage (keyOutBackground t im)) ! (pixelIndex im x y + 1)
           = imgd_data im ! (pixelIndex im x y + 1) \<and>
         imgd_data (res_transparentImage (keyOutBackground t im)) ! (pixelIndex im x y + 2)
           = imgd_data im ! (pixelIndex im x y + 2) \<and>
         imgd_data (res_transparentImage (keyOutBackground t im)) ! (pixelIndex im x y + 3)
           = (if distanceToTopLeft im x y < t * t then 0
              else imgd_data im ! (pixelIndex im x y + 3))"
proof -
  let ?d = "imgd_data im"
  define k where "k = pixelIndex im x y"
  have len: "length ?d = 4 * imgd_width im * imgd_height im"
    using wf by (simp add: wellFormed_def)
  have k3: "k + 3 < length ?d"
    using pixel_index_bound [OF x y] len by (simp add: k_def pixelIndex_def)
  then have long: "2 < length ?d" by simp
  have m4: "length ?d mod 4 = 0"
    using len by (simp add: mult.assoc)
  have k4: "k mod 4 = 0"
    by (simp add: k_def pixelIndex_def)
  have out: "imgd_data (res_transparentImage (keyOutBackground t im)) =
      removeBackground (t * t) (uint (?d ! 0)) (uint (?d ! 1)) (uint (?d ! 2)) ?d 0"
    using long by (simp add: keyOutBackground_def Let_def)
  have nth: "removeBackground (t * t) (uint (?d ! 0)) (uint (?d ! 1)) (uint (?d ! 2)) ?d 0 ! j =
           (if j mod 4 = 3 \<and>
               (uint (?d ! (j - 3)) - uint (?d ! 0))\<^sup>2 + (uint (?d ! (j - 2)) - uint (?d ! 1))\<^sup>2
                 + (uint (?d ! (j - 1)) - uint (?d ! 2))\<^sup>2 < t * t
            then 0 else ?d ! j)" if "j < length ?d" for j
    using nth_removeBackground [OF _ m4 that, of 0] by simp
  have r0: "k mod 4 \<noteq> 3" "(k + 1) mod 4 \<noteq> 3" "(k + 2) mod 4 \<noteq> 3" "(k + 3) mod 4 = 3"
    using k4 by presburger+
  have d: "distanceToTopLeft im x y =
      (uint (?d ! k) - uint (?d ! 0))\<^sup>2 + (uint (?d ! (k + 1)) - uint (?d ! 1))\<^sup>2
        + (uint (?d ! (k + 2)) - uint (?d ! 2))\<^sup>2"
    by (simp add: distanceToTopLeft_def k_def)
  have "removeBackground (t * t) (uint (?d ! 0)) (uint (?d ! 1)) (uint (?d ! 2)) ?d 0 ! k = ?d ! k"
    using nth [of k] k3 r0 by simp
  moreover
  have "removeBackground (t * t) (uint (?d ! 0)) (uint (?d ! 1)) (uint (?d ! 2)) ?d 0 ! (k + 1)
          = ?d ! (k + 1)"
    using nth [of "k + 1"] k3 r0 by simp
  moreover
  have "removeBackground (t * t) (uint (?d ! 0)) (uint (?d ! 1)) (uint (?d ! 2)) ?d 0 ! (k + 2)
          = ?d ! (k + 2)"
    using nth [of "k + 2"] k3 r0 by simp
  moreover
  have "removeBackground (t * t) (uint (?d ! 0)) (uint (?d ! 1)) (uint (?d ! 2)) ?d 0 ! (k + 3)
          = (if distanceToTopLeft im x y < t * t then 0 else ?d ! (k + 3))"
    using nth [of "k + 3"] k3 r0 by (simp add: d)
  ultimately show ?thesis
    unfolding out k_def [symmetric] by simp
qed

section \<open>The transparency processor: bounding box\<close>

lemma uint_pos_iff: "0 < uint (a :: 8 word) \<longleftrightarrow> a \<noteq> 0"
  by (metis less_le uint_0_iff uint_ge_0)

lemma boxAround_insert:
  assumes "boxAround w h P (minX, minY, maxX, maxY)" and "x < w" and "y < h"
  shows "boxAround w h (insert (x, y) P)
           (if int x < minX then int x else minX,
            if int y < minY then int y else minY,
            if int x > maxX then int x else maxX,
            if int y > maxY then int y else maxY)"
proof (cases "P = {}")
  case True
  with assms show ?thesis by (simp add: boxAround_def)
next
  case False
  with assms(1) show ?thesis
    unfolding boxAround_def by (auto simp: not_less)
qed

lemma rowFrom_done: "\<not> x < w \<Longrightarrow> rowFrom w d y x = {}"
  by (auto simp: rowFrom_def)

lemma rowFrom_step:
  assumes "x < w"
  shows "rowFrom w d y x =
     (if d ! ((y * w + x) * 4 + 3) \<noteq> 0 then insert (x, y) (rowFrom w d y (x + 1))
      else rowFrom w d y (x + 1))"
proof -
  have *: "x \<le> a \<longleftrightarrow> a = x \<or> x + 1 \<le> a" for a by auto
  show ?thesis
    unfolding rowFrom_def using assms
    by (auto simp: * prod_eq_iff)
qed

lemma boxAround_scanRow:
  assumes "boxAround w h P box" and "y < h" and "length d = 4 * w * h"
  shows "boxAround w h (P \<union> rowFrom w d y x) (scanRow w d y x box)"
  using assms
proof (induction w d y x box arbitrary: P rule: scanRow.induct)
  case (1 w d y x minX minY maxX maxY)
  note inv0 = "1.prems"(1) and yh = "1.prems"(2) and len = "1.prems"(3)
  show ?case
  proof (cases "x < w")
    case False
    with inv0 show ?thesis
      by (subst scanRow.simps) (simp add: rowFrom_done)
  next
    case True
    define c where
      "c \<longleftrightarrow> (y * w + x) * 4 + 3 < length d \<and> uint (d ! ((y * w + x) * 4 + 3)) > 0"
    define box' where "box' = (if c
           then (if int x < minX then int x else minX,
                 if int y < minY then int y else minY,
                 if int x > maxX then int x else maxX,
                 if int y > maxY then int y else maxY)
           else (minX, minY, maxX, maxY))"
    have step: "scanRow w d y x (minX, minY, maxX, maxY) = scanRow w d y (x + 1) box'"
      using True by (subst scanRow.simps) (simp add: box'_def c_def)
    have c_iff: "c \<longleftrightarrow> d ! ((y * w + x) * 4 + 3) \<noteq> 0"
      using pixel_index_bound [OF True yh] len by (simp add: c_def uint_pos_iff)
    define P' where "P' = (if c then insert (x, y) P else P)"
    have inv: "boxAround w h P' box'"
      using inv0 boxAround_insert [OF inv0 True yh]
      by (simp add: P'_def box'_def)
    have "boxAround w h (P' \<union> rowFrom w d y (x + 1)) (scanRow w d y (x + 1) box')"
      by (rule "1.IH" [OF True, folded c_def, folded box'_def, OF inv yh len])
    moreover have "P' \<union> rowFrom w d y (x + 1) = P \<union> rowFrom w d y x"
      using rowFrom_step [OF True, of d y] c_iff by (auto simp: P'_def)
    ultimately show ?thesis
      unfolding step by simp
  qed
qed

lemma rowsFrom_done: "\<not> y < h \<Longrightarrow> rowsFrom w h d y = {}"
  by (auto simp: rowsFrom_def)

lemma rowsFrom_step:
  assumes "y < h"
  shows "rowsFrom w h d y = rowFrom w d y 0 \<union> rowsFrom w h d (y + 1)"
proof -
  have *: "y \<le> a \<longleftrightarrow> a = y \<or> y + 1 \<le> a" for a by auto
  show ?thesis
    unfolding rowFrom_def rowsFrom_def using assms
    by (auto simp: *)
qed

lemma boxAround_scanRows:
  assumes "boxAround w h P box" and "length d = 4 * w * h"
  shows "boxAround w h (P \<union> rowsFrom w h d y) (scanRows w h d y box)"
  using assms
proof (induction w h d y box arbitrary: P rule: scanRows.induct)
  case (1 w h d y box)
  note inv0 = "1.prems"(1) and len = "1.prems"(2)
  show ?case
  proof (cases "y < h")
    case False
    with inv0 show ?thesis
      by (subst scanRows.simps) (simp add: rowsFrom_done)
  next
    case True
    have step: "scanRows w h d y box = scanRows w h d (y + 1) (scanRow w d y 0 box)"
      using True by (subst scanRows.simps) simp
    have inv: "boxAround w h (P \<union> rowFrom w d y 0) (scanRow w d y 0 box)"
      by (rule boxAround_scanRow [OF inv0 True len])
    have "boxAround w h ((P \<union> rowFrom w d y 0) \<union> rowsFrom w h d (y + 1))
            (scanRows w h d (y + 1) (scanRow w d y 0 box))"
      by (rule "1.IH" [OF True inv len])
    then show ?thesis
      unfolding step rowsFrom_step [OF True] by (simp add: Un_assoc)
  qed
qed

lemma finite_opaquePixels: "finite (opaquePixels im)"
proof -
  have "opaquePixels im \<subseteq> {..<imgd_width im} \<times> {..<imgd_height im}"
    by (auto simp: opaquePixels_def)
  then show ?thesis by (rule finite_subset) simp
qed

lemma boundsOfBox_boxAround:
  assumes "boxAround w h S box" and "finite S"
  shows "boundsOfBox w h box =
           (if S = {} then \<lparr>b_x = 0, b_y = 0, b_width = real w, b_height = real h\<rparr>
            else tightBounds S)"
proof (cases "S = {}")
  case True
  with assms show ?thesis
    by (simp add: boxAround_def boundsOfBox_def)
next
  case False
  obtain minX minY maxX maxY where box: "box = (minX, minY, maxX, maxY)"
    by (cases box) auto
  from assms(1) False box
  have inside: "\<forall>p \<in> S. minX \<le> int (fst p) \<and> int (fst p) \<le> maxX \<and>
                  minY \<le> int (snd p) \<and> int (snd p) \<le> maxY"
    and ex: "\<exists>p \<in> S. int (fst p) = minX" "\<exists>p \<in> S. int (fst p) = maxX"
      "\<exists>p \<in> S. int (snd p) = minY" "\<exists>p \<in> S. int (snd p) = maxY"
    by (simp_all add: boxAround_def)
  have fin: "finite (fst ` S)" "finite (snd ` S)"
    using assms(2) by simp_all
  have minx: "minX = int (Min (fst ` S))"
  proof -
    from ex(1) obtain p where p: "p \<in> S" "int (fst p) = minX" by blast
    have "Min (fst ` S) = fst p"
      using fin(1) p inside by (intro Min_eqI) auto
    with p show ?thesis by simp
  qed
  have maxx: "maxX = int (Max (fst ` S))"
  proof -
    from ex(2) obtain p where p: "p \<in> S" "int (fst p) = maxX" by blast
    have "Max (fst ` S) = fst p"
      using fin(1) p inside by (intro Max_eqI) auto
    with p show ?thesis by simp
  qed
  have miny: "minY = int (Min (snd ` S))"
  proof -
    from ex(3) obtain p where p: "p \<in> S" "int (snd p) = minY" by blast
    have "Min (snd ` S) = snd p"
      using fin(2) p inside by (intro Min_eqI) auto
    with p show ?thesis by simp
  qed
  have maxy: "maxY = int (Max (snd ` S))"
  proof -
    from ex(4) obtain p where p: "p \<in> S" "int (snd p) = maxY" by blast
    have "Max (snd ` S) = snd p"
      using fin(2) p inside by (intro Max_eqI) auto
    with p show ?thesis by simp
  qed
  have le: "Min (fst ` S) \<le> Max (fst ` S)" "Min (snd ` S) \<le> Max (snd ` S)"
    using fin False by (simp_all add: Min_le_iff)
  show ?thesis
    using False le by (simp add: box boundsOfBox_def tightBounds_def minx maxx miny maxy)
qed

lemma rowsFrom_opaquePixels:
  "rowsFrom (imgd_width im) (imgd_height im) (imgd_data im) 0 = opaquePixels im"
  by (auto simp: rowsFrom_def opaquePixels_def pixelIndex_def)

lemma keyOutBackground_bounds:
  assumes "wellFormed im"
  shows "res_contentBounds (keyOutBackground t im) =
           (if opaquePixels (res_transparentImage (keyOutBackground t im)) = {}
            then fullExtent im
            else tightBounds (opaquePixels (res_transparentImage (keyOutBackground t im))))"
proof -
  let ?w = "imgd_width im" and ?h = "imgd_height im" and ?d = "imgd_data im"
  define d' where "d' = (if 2 < length ?d
                then removeBackground (t * t) (uint (?d ! 0)) (uint (?d ! 1)) (uint (?d ! 2)) ?d 0
                else ?d)"
  define out where "out = im\<lparr>imgd_data := d'\<rparr>"
  have len: "length d' = 4 * ?w * ?h"
    using assms by (simp add: d'_def wellFormed_def length_removeBackground)
  have out: "res_transparentImage (keyOutBackground t im) = out"
    by (simp add: keyOutBackground_def Let_def out_def d'_def)
  have bounds: "res_contentBounds (keyOutBackground t im) =
      boundsOfBox ?w ?h (scanRows ?w ?h d' 0 (int ?w, int ?h, -1, -1))"
    by (simp add: keyOutBackground_def Let_def d'_def)
  have "boxAround ?w ?h {} (int ?w, int ?h, -1, -1)"
    by (simp add: boxAround_def)
  from boxAround_scanRows [OF this len, of 0]
  have "boxAround ?w ?h (opaquePixels out) (scanRows ?w ?h d' 0 (int ?w, int ?h, -1, -1))"
    using rowsFrom_opaquePixels [of out] by (simp add: out_def)
  from boundsOfBox_boxAround [OF this finite_opaquePixels]
  show ?thesis
    unfolding out bounds by (simp add: fullExtent_def)
qed

lemma processWithThreshold_ok:
  assumes "decoded inp = Some im" and "contextAvailable inp" and "pixelsReadable inp"
    and "reencodeLoads inp" and "wellFormed im"
  shows "processWithThreshold t inp = Inr (keyOutBackground t im)"
  using assms by (simp add: processWithThreshold_def wellFormed_def)

text \<open>The processor on the two example images, by evaluation.\<close>

lemma keyOutBackground_whiteBackdrop:
  "keyOutBackground 20 whiteBackdrop =
     \<lparr>res_transparentImage =
        \<lparr>imgd_width = 3, imgd_height = 1,
         imgd_data = [255, 255, 255, 0,  250, 250, 250, 0,  255, 0, 0, 255]\<rparr>,
      res_contentBounds = \<lparr>b_x = 2, b_y = 0, b_width = 1, b_height = 1\<rparr>\<rparr>"
  by (simp add: keyOutBackground_def whiteBackdrop_def Let_def removeBackground.simps
      scanRows.simps scanRow.simps boundsOfBox_def)

lemma keyOutBackground_darkRamp_5:
  "keyOutBackground 5 darkRamp =
     \<lparr>res_transparentImage =
        \<lparr>imgd_width = 3, imgd_height = 1,
         imgd_data = [0, 0, 0, 0,  10, 0, 0, 255,  100, 0, 0, 255]\<rparr>,
      res_contentBounds = \<lparr>b_x = 1, b_y = 0, b_width = 2, b_height = 1\<rparr>\<rparr>"
  by (simp add: keyOutBackground_def darkRamp_def Let_def removeBackground.simps
      scanRows.simps scanRow.simps boundsOfBox_def)

lemma keyOutBackground_darkRamp_20:
  "keyOutBackground 20 darkRamp =
     \<lparr>res_transparentImage =
        \<lparr>imgd_width = 3, imgd_height = 1,
         imgd_data = [0, 0, 0, 0,  10, 0, 0, 0,  100, 0, 0, 255]\<rparr>,
      res_contentBounds = \<lparr>b_x = 2, b_y = 0, b_width = 1, b_height = 1\<rparr>\<rparr>"
  by (simp add: keyOutBackground_def darkRamp_def Let_def removeBackground.simps
      scanRows.simps scanRow.simps boundsOfBox_def)

lemma wellFormed_examples: "wellFormed whiteBackdrop" "wellFormed darkRamp"
  by (simp_all add: wellFormed_def whiteBackdrop_def darkRamp_def)

section \<open>C1: the contract of the transparency processor\<close>

text \<open>
  Claim C1. For every decodable raster image (one that loads, is not empty and can be
  read from a 2d canvas), the transparency processor takes the background colour from
  the single top-left pixel, sets alpha to 0 for every pixel whose squared Euclidean
  RGB distance to that colour is within the threshold \<open>20\<^sup>2\<close> and changes no other
  byte, and returns the minimal bounding rectangle of the pixels that remain
  non-transparent, in source-pixel coordinates; if none remains, the rectangle is the
  full image extent. "Within the threshold" is the comparison of the code and of the
  specification's glossary: the distance is below \<open>20\<^sup>2\<close>.
\<close>

theorem transparency_processor_contract:
  assumes "decoded inp = Some im" and "contextAvailable inp" and "pixelsReadable inp"
    and "reencodeLoads inp" and "wellFormed im"
  shows "\<exists>res. processImageForTransparency inp = Inr res \<and>
           imgd_width (res_transparentImage res) = imgd_width im \<and>
           imgd_height (res_transparentImage res) = imgd_height im \<and>
           length (imgd_data (res_transparentImage res)) = length (imgd_data im) \<and>
           (\<forall>x < imgd_width im. \<forall>y < imgd_height im.
              imgd_data (res_transparentImage res) ! pixelIndex im x y
                = imgd_data im ! pixelIndex im x y \<and>
              imgd_data (res_transparentImage res) ! (pixelIndex im x y + 1)
                = imgd_data im ! (pixelIndex im x y + 1) \<and>
              imgd_data (res_transparentImage res) ! (pixelIndex im x y + 2)
                = imgd_data im ! (pixelIndex im x y + 2) \<and>
              imgd_data (res_transparentImage res) ! (pixelIndex im x y + 3)
                = (if distanceToTopLeft im x y < 20\<^sup>2 then 0
                   else imgd_data im ! (pixelIndex im x y + 3))) \<and>
           res_contentBounds res =
             (if opaquePixels (res_transparentImage res) = {} then fullExtent im
              else tightBounds (opaquePixels (res_transparentImage res)))"
proof -
  have run: "processImageForTransparency inp = Inr (keyOutBackground 20 im)"
    using processWithThreshold_ok [OF assms]
    by (simp add: processImageForTransparency_def COLOR_DISTANCE_THRESHOLD_def)
  have px: "\<forall>x < imgd_width im. \<forall>y < imgd_height im.
              imgd_data (res_transparentImage (keyOutBackground 20 im)) ! pixelIndex im x y
                = imgd_data im ! pixelIndex im x y \<and>
              imgd_data (res_transparentImage (keyOutBackground 20 im)) ! (pixelIndex im x y + 1)
                = imgd_data im ! (pixelIndex im x y + 1) \<and>
              imgd_data (res_transparentImage (keyOutBackground 20 im)) ! (pixelIndex im x y + 2)
                = imgd_data im ! (pixelIndex im x y + 2) \<and>
              imgd_data (res_transparentImage (keyOutBackground 20 im)) ! (pixelIndex im x y + 3)
                = (if distanceToTopLeft im x y < 20\<^sup>2 then 0
                   else imgd_data im ! (pixelIndex im x y + 3))"
    using keyOutBackground_pixels [OF assms(5), of _ _ 20] by (simp add: power2_eq_square)
  show ?thesis
    using run px keyOutBackground_shape [of 20 im] keyOutBackground_bounds [OF assms(5), of 20]
    by blast
qed

theorem transparency_processor_contract_witness:
  "wellFormed whiteBackdrop \<and>
   distanceToTopLeft whiteBackdrop 1 0 = 75 \<and>
   processImageForTransparency (loaded whiteBackdrop) =
     Inr \<lparr>res_transparentImage =
            \<lparr>imgd_width = 3, imgd_height = 1,
             imgd_data = [255, 255, 255, 0,  250, 250, 250, 0,  255, 0, 0, 255]\<rparr>,
          res_contentBounds = \<lparr>b_x = 2, b_y = 0, b_width = 1, b_height = 1\<rparr>\<rparr>"
proof -
  obtain res where "processImageForTransparency (loaded whiteBackdrop) = Inr res"
    using transparency_processor_contract [of "loaded whiteBackdrop" whiteBackdrop]
      wellFormed_examples(1)
    by (auto simp: loaded_def)
  moreover have "processImageForTransparency (loaded whiteBackdrop)
      = Inr (keyOutBackground 20 whiteBackdrop)"
    by (simp add: processImageForTransparency_def processWithThreshold_def loaded_def
        COLOR_DISTANCE_THRESHOLD_def whiteBackdrop_def)
  moreover have "distanceToTopLeft whiteBackdrop 1 0 = 75"
    by (simp add: distanceToTopLeft_def pixelIndex_def whiteBackdrop_def)
  ultimately show ?thesis
    using wellFormed_examples(1) keyOutBackground_whiteBackdrop by simp
qed

section \<open>C2: the threshold and the bounding box\<close>

lemma opaquePixels_keyOut:
  assumes "wellFormed im"
  shows "opaquePixels (res_transparentImage (keyOutBackground t im)) =
           {(x, y). x < imgd_width im \<and> y < imgd_height im \<and>
                    \<not> distanceToTopLeft im x y < t * t \<and>
                    imgd_data im ! (pixelIndex im x y + 3) \<noteq> 0}"
proof -
  have idx: "pixelIndex (res_transparentImage (keyOutBackground t im)) x y = pixelIndex im x y"
    for x y
    using keyOutBackground_shape [of t im] by (simp add: pixelIndex_def)
  show ?thesis
    unfolding opaquePixels_def idx
    using keyOutBackground_shape [of t im] keyOutBackground_pixels [OF assms, of _ _ t]
    by (auto split: if_splits)
qed

lemma opaquePixels_antimono:
  assumes "wellFormed im" and "0 \<le> t1" and "t1 \<le> t2"
  shows "opaquePixels (res_transparentImage (keyOutBackground t2 im))
           \<subseteq> opaquePixels (res_transparentImage (keyOutBackground t1 im))"
proof -
  from assms(2,3) have "t1 * t1 \<le> t2 * t2"
    by (intro mult_mono) auto
  then show ?thesis
    unfolding opaquePixels_keyOut [OF assms(1)] by auto
qed

lemma tightBounds_inside:
  assumes "S2 \<subseteq> S1" and "S2 \<noteq> {}" and "finite S1"
  shows "boundsInside (tightBounds S2) (tightBounds S1)"
proof -
  have fin: "finite (fst ` S1)" "finite (snd ` S1)"
    using assms(3) by simp_all
  have ne: "fst ` S2 \<noteq> {}" "snd ` S2 \<noteq> {}" using assms(2) by auto
  have sub: "fst ` S2 \<subseteq> fst ` S1" "snd ` S2 \<subseteq> snd ` S1" using assms(1) by auto
  have "Min (fst ` S1) \<le> Min (fst ` S2)"
    by (rule Min_antimono [OF sub(1) ne(1) fin(1)])
  moreover have "Min (snd ` S1) \<le> Min (snd ` S2)"
    by (rule Min_antimono [OF sub(2) ne(2) fin(2)])
  moreover have "Max (fst ` S2) \<le> Max (fst ` S1)"
    by (rule Max_mono [OF sub(1) ne(1) fin(1)])
  moreover have "Max (snd ` S2) \<le> Max (snd ` S1)"
    by (rule Max_mono [OF sub(2) ne(2) fin(2)])
  ultimately show ?thesis
    by (simp add: boundsInside_def tightBounds_def)
qed

lemma tightBounds_inside_full:
  assumes "S \<subseteq> {..<w} \<times> {..<h}" and "S \<noteq> {}"
  shows "boundsInside (tightBounds S) \<lparr>b_x = 0, b_y = 0, b_width = real w, b_height = real h\<rparr>"
proof -
  have fin: "finite S" using assms(1) by (rule finite_subset) simp
  then have f: "finite (fst ` S)" "finite (snd ` S)" by simp_all
  have ne: "fst ` S \<noteq> {}" "snd ` S \<noteq> {}" using assms(2) by auto
  have "Max (fst ` S) \<in> fst ` S" "Max (snd ` S) \<in> snd ` S"
    using f ne by (auto intro: Max_in)
  with assms(1) have "Max (fst ` S) < w" "Max (snd ` S) < h" by auto
  then have "real (Max (fst ` S)) + 1 \<le> real w" "real (Max (snd ` S)) + 1 \<le> real h"
    by linarith+
  then show ?thesis
    by (simp add: boundsInside_def tightBounds_def)
qed

text \<open>
  Claim C2, as stated: for thresholds \<open>t1 \<le> t2\<close> the bounding box computed with \<open>t2\<close>
  contains the one computed with \<open>t1\<close>. It fails on three pixels in a row at squared
  distances 0, 100 and 10000 from the background: with the threshold 5 the box is
  columns 1 to 2, with the threshold 20 it is column 2 alone.
\<close>

theorem larger_threshold_contains_box_counterexample:
  "(5 :: int) \<le> 20 \<and>
   processWithThreshold 5 (loaded darkRamp) =
     Inr \<lparr>res_transparentImage =
            \<lparr>imgd_width = 3, imgd_height = 1,
             imgd_data = [0, 0, 0, 0,  10, 0, 0, 255,  100, 0, 0, 255]\<rparr>,
          res_contentBounds = \<lparr>b_x = 1, b_y = 0, b_width = 2, b_height = 1\<rparr>\<rparr> \<and>
   processWithThreshold 20 (loaded darkRamp) =
     Inr \<lparr>res_transparentImage =
            \<lparr>imgd_width = 3, imgd_height = 1,
             imgd_data = [0, 0, 0, 0,  10, 0, 0, 0,  100, 0, 0, 255]\<rparr>,
          res_contentBounds = \<lparr>b_x = 2, b_y = 0, b_width = 1, b_height = 1\<rparr>\<rparr> \<and>
   \<not> boundsInside \<lparr>b_x = 1, b_y = 0, b_width = 2, b_height = 1\<rparr>
                   \<lparr>b_x = 2, b_y = 0, b_width = 1, b_height = 1\<rparr>"
proof -
  have "processWithThreshold t (loaded darkRamp) = Inr (keyOutBackground t darkRamp)" for t
    by (simp add: processWithThreshold_def loaded_def darkRamp_def)
  then show ?thesis
    by (simp add: keyOutBackground_darkRamp_5 keyOutBackground_darkRamp_20 boundsInside_def)
qed

text \<open>
  Claim C2, amended. For thresholds \<open>0 \<le> t1 \<le> t2\<close> and the same image, every pixel
  that stays opaque with \<open>t2\<close> stays opaque with \<open>t1\<close>. So, when some pixel stays opaque
  with \<open>t2\<close>, the bounding box computed with \<open>t2\<close> lies inside the one computed with
  \<open>t1\<close>: raising the threshold never enlarges the box. Only when no pixel stays opaque
  with \<open>t2\<close> is its box the full image extent, which contains the box of \<open>t1\<close>.
\<close>

theorem raising_threshold_shrinks_bounds:
  assumes "decoded inp = Some im" and "contextAvailable inp" and "pixelsReadable inp"
    and "reencodeLoads inp" and "wellFormed im" and "0 \<le> t1" and "t1 \<le> t2"
  shows "\<exists>r1 r2. processWithThreshold t1 inp = Inr r1 \<and> processWithThreshold t2 inp = Inr r2 \<and>
           opaquePixels (res_transparentImage r2) \<subseteq> opaquePixels (res_transparentImage r1) \<and>
           (if opaquePixels (res_transparentImage r2) = {}
            then res_contentBounds r2 = fullExtent im \<and>
                 boundsInside (res_contentBounds r1) (res_contentBounds r2)
            else boundsInside (res_contentBounds r2) (res_contentBounds r1))"
proof -
  let ?r1 = "keyOutBackground t1 im" and ?r2 = "keyOutBackground t2 im"
  let ?S1 = "opaquePixels (res_transparentImage ?r1)"
  let ?S2 = "opaquePixels (res_transparentImage ?r2)"
  have sub: "?S2 \<subseteq> ?S1" by (rule opaquePixels_antimono [OF assms(5,6,7)])
  have b1: "res_contentBounds ?r1 = (if ?S1 = {} then fullExtent im else tightBounds ?S1)"
    by (rule keyOutBackground_bounds [OF assms(5)])
  have b2: "res_contentBounds ?r2 = (if ?S2 = {} then fullExtent im else tightBounds ?S2)"
    by (rule keyOutBackground_bounds [OF assms(5)])
  have grid: "?S1 \<subseteq> {..<imgd_width im} \<times> {..<imgd_height im}"
    using keyOutBackground_shape [of t1 im] by (auto simp: opaquePixels_def)
  have "if ?S2 = {}
        then res_contentBounds ?r2 = fullExtent im \<and>
             boundsInside (res_contentBounds ?r1) (res_contentBounds ?r2)
        else boundsInside (res_contentBounds ?r2) (res_contentBounds ?r1)"
  proof (cases "?S2 = {}")
    case True
    have "boundsInside (res_contentBounds ?r1) (fullExtent im)"
    proof (cases "?S1 = {}")
      case True
      then show ?thesis by (simp add: b1 boundsInside_def)
    next
      case False
      then show ?thesis
        using tightBounds_inside_full [OF grid False] by (simp add: b1 fullExtent_def)
    qed
    with True show ?thesis by (simp add: b2)
  next
    case False
    with sub have "?S1 \<noteq> {}" by auto
    with False show ?thesis
      using tightBounds_inside [OF sub False finite_opaquePixels] by (simp add: b1 b2)
  qed
  then show ?thesis
    using sub processWithThreshold_ok [OF assms(1-5)] by blast
qed

theorem raising_threshold_shrinks_bounds_witness:
  "(0 :: int) \<le> 5 \<and> (5 :: int) \<le> 20 \<and> wellFormed darkRamp \<and>
   (\<exists>r1 r2. processWithThreshold 5 (loaded darkRamp) = Inr r1 \<and>
            processWithThreshold 20 (loaded darkRamp) = Inr r2 \<and>
            (2, 0) \<in> opaquePixels (res_transparentImage r2) \<and>
            res_contentBounds r1 = \<lparr>b_x = 1, b_y = 0, b_width = 2, b_height = 1\<rparr> \<and>
            res_contentBounds r2 = \<lparr>b_x = 2, b_y = 0, b_width = 1, b_height = 1\<rparr> \<and>
            boundsInside (res_contentBounds r2) (res_contentBounds r1))"
proof -
  obtain r1 r2 where r1: "processWithThreshold 5 (loaded darkRamp) = Inr r1"
    and r2: "processWithThreshold 20 (loaded darkRamp) = Inr r2"
    and box: "if opaquePixels (res_transparentImage r2) = {}
            then res_contentBounds r2 = fullExtent darkRamp \<and>
                 boundsInside (res_contentBounds r1) (res_contentBounds r2)
            else boundsInside (res_contentBounds r2) (res_contentBounds r1)"
    using raising_threshold_shrinks_bounds [of "loaded darkRamp" darkRamp 5 20]
      wellFormed_examples(2)
    by (auto simp: loaded_def)
  have ev: "processWithThreshold t (loaded darkRamp) = Inr (keyOutBackground t darkRamp)" for t
    by (simp add: processWithThreshold_def loaded_def darkRamp_def)
  from r1 ev have e1: "r1 = keyOutBackground 5 darkRamp" by simp
  from r2 ev have e2: "r2 = keyOutBackground 20 darkRamp" by simp
  have mem: "(2, 0) \<in> opaquePixels (res_transparentImage r2)"
    by (simp add: e2 keyOutBackground_darkRamp_20 opaquePixels_def pixelIndex_def)
  then have "opaquePixels (res_transparentImage r2) \<noteq> {}" by blast
  with box have "boundsInside (res_contentBounds r2) (res_contentBounds r1)" by simp
  with r1 r2 mem show ?thesis
    using wellFormed_examples(2)
    by (auto simp: e1 e2 keyOutBackground_darkRamp_5 keyOutBackground_darkRamp_20)
qed

section \<open>C3: the coordinate conversions are inverse to each other\<close>

text \<open>Rounding to a double: the error of one operation.\<close>

lemma roundHalfEven_error: "\<bar>of_int (roundHalfEven y) - y\<bar> \<le> 1 / 2"
  unfolding roundHalfEven_def Let_def by (auto simp: abs_if) linarith+

lemma exponentOf_bounds:
  assumes "0 < x"
  shows "2 powi exponentOf x \<le> x" and "x < 2 powi (exponentOf x + 1)"
proof -
  show "2 powi exponentOf x \<le> x"
  proof (cases "1 \<le> x")
    case True
    then have pos: "0 < \<lfloor>x\<rfloor>" by simp
    from bitlen_bounds [OF pos] have "2 ^ nat (bitlen \<lfloor>x\<rfloor> - 1) \<le> \<lfloor>x\<rfloor>" by simp
    then have "(2::real) ^ nat (bitlen \<lfloor>x\<rfloor> - 1) \<le> of_int \<lfloor>x\<rfloor>"
      by (metis of_int_le_iff of_int_numeral of_int_power)
    also have "\<dots> \<le> x" by simp
    finally have "(2::real) ^ nat (bitlen \<lfloor>x\<rfloor> - 1) \<le> x" .
    moreover from pos have "bitlen \<lfloor>x\<rfloor> - 1 \<ge> 0"
      by (simp add: bitlen_alt_def)
    ultimately show ?thesis using True
      by (simp add: exponentOf_def power_int_def)
  next
    case False
    with assms have "1 < 1 / x" by simp
    then have n: "2 \<le> \<lceil>1 / x\<rceil>" by linarith
    then have pos: "0 < \<lceil>1 / x\<rceil> - 1" by simp
    define k where "k = bitlen (\<lceil>1 / x\<rceil> - 1)"
    from bitlen_bounds [OF pos] have "\<lceil>1 / x\<rceil> - 1 < 2 ^ nat k" by (simp add: k_def)
    then have "\<lceil>1 / x\<rceil> \<le> 2 ^ nat k" by simp
    then have "of_int \<lceil>1 / x\<rceil> \<le> (2::real) ^ nat k"
      by (metis of_int_le_iff of_int_numeral of_int_power)
    moreover have "1 / x \<le> of_int \<lceil>1 / x\<rceil>" by simp
    ultimately have "1 / x \<le> (2::real) ^ nat k" by linarith
    with assms have "1 / 2 ^ nat k \<le> x"
      by (simp add: field_simps)
    moreover from pos have "k \<ge> 1" by (simp add: k_def bitlen_alt_def)
    then have "2 powi (- k) = 1 / (2::real) ^ nat k"
      by (simp add: power_int_def field_simps)
    ultimately show ?thesis using False
      by (simp add: exponentOf_def k_def [symmetric])
  qed
  show "x < 2 powi (exponentOf x + 1)"
  proof (cases "1 \<le> x")
    case True
    then have pos: "0 < \<lfloor>x\<rfloor>" by simp
    define k where "k = bitlen \<lfloor>x\<rfloor>"
    from bitlen_bounds [OF pos] have "\<lfloor>x\<rfloor> < 2 ^ nat k" by (simp add: k_def)
    then have "\<lfloor>x\<rfloor> + 1 \<le> 2 ^ nat k" by simp
    then have "of_int (\<lfloor>x\<rfloor> + 1) \<le> (2::real) ^ nat k"
      by (metis of_int_le_iff of_int_numeral of_int_power)
    moreover have "x < of_int (\<lfloor>x\<rfloor> + 1)" by linarith
    ultimately have "x < (2::real) ^ nat k" by linarith
    moreover have "k \<ge> 0" by (simp add: k_def bitlen_nonneg)
    ultimately show ?thesis using True
      by (simp add: exponentOf_def k_def [symmetric] power_int_def)
  next
    case False
    with assms have "1 < 1 / x" by simp
    then have n: "2 \<le> \<lceil>1 / x\<rceil>" by linarith
    then have pos: "0 < \<lceil>1 / x\<rceil> - 1" by simp
    define k where "k = bitlen (\<lceil>1 / x\<rceil> - 1)"
    from pos have k1: "k \<ge> 1" by (simp add: k_def bitlen_alt_def)
    from bitlen_bounds [OF pos] have "2 ^ nat (k - 1) \<le> \<lceil>1 / x\<rceil> - 1" by (simp add: k_def)
    then have "(2::real) ^ nat (k - 1) \<le> of_int (\<lceil>1 / x\<rceil> - 1)"
      by (metis of_int_le_iff of_int_numeral of_int_power)
    moreover have "of_int (\<lceil>1 / x\<rceil> - 1) < 1 / x" by linarith
    ultimately have "(2::real) ^ nat (k - 1) < 1 / x" by linarith
    with assms have "x < 1 / 2 ^ nat (k - 1)"
      by (simp add: field_simps)
    moreover have "2 powi (- k + 1) = 1 / (2::real) ^ nat (k - 1)"
      using k1 by (simp add: power_int_def field_simps)
    ultimately show ?thesis using False
      by (simp add: exponentOf_def k_def [symmetric])
  qed
qed

lemma roundDouble_error:
  assumes "roundDouble x = Some r"
  shows "\<bar>r - x\<bar> \<le> 2 powi (- 53) * \<bar>x\<bar> + 2 powi (- 1075)"
proof (cases "x = 0")
  case True
  with assms show ?thesis by (simp add: roundDouble_def)
next
  case False
  define e where "e = max (exponentOf \<bar>x\<bar>) (- 1022)"
  define q :: real where "q = 2 powi (e - 52)"
  have q: "0 < q" by (simp add: q_def)
  have rd: "r = of_int (roundHalfEven (x / q)) * q"
    using False assms by (simp add: roundDouble_def Let_def q_def e_def split: if_splits)
  have "r - x = (of_int (roundHalfEven (x / q)) - x / q) * q"
    using q by (simp add: rd field_simps)
  then have "\<bar>r - x\<bar> = \<bar>of_int (roundHalfEven (x / q)) - x / q\<bar> * q"
    using q by (simp add: abs_mult)
  also have "\<dots> \<le> 1 / 2 * q"
    using roundHalfEven_error [of "x / q"] q by (intro mult_right_mono) simp_all
  also have "1 / 2 * q = 2 powi (- 53) * 2 powi e"
    by (simp add: q_def power_int_diff power_int_minus)
  also have "\<dots> \<le> 2 powi (- 53) * \<bar>x\<bar> + 2 powi (- 1075)"
  proof (cases "exponentOf \<bar>x\<bar> \<le> - 1022")
    case True
    then have "e = - 1022" by (simp add: e_def)
    then have "2 powi (- 53) * 2 powi e = (2::real) powi (- 1075)"
      by (simp add: power_int_add [symmetric])
    then show ?thesis by simp
  next
    case False
    then have "e = exponentOf \<bar>x\<bar>" by (simp add: e_def)
    moreover have "2 powi exponentOf \<bar>x\<bar> \<le> \<bar>x\<bar>"
      using exponentOf_bounds(1) [of "\<bar>x\<bar>"] \<open>x \<noteq> 0\<close> by simp
    then have "2 powi (- 53) * 2 powi exponentOf \<bar>x\<bar> \<le> 2 powi (- 53) * \<bar>x\<bar>"
      by (intro mult_left_mono) simp_all
    ultimately show ?thesis by simp
  qed
  finally show ?thesis .
qed

lemma roundDouble_finite:
  assumes "\<bar>x\<bar> \<le> 2 powi 1023"
  shows "\<exists>r. roundDouble x = Some r"
proof (cases "x = 0")
  case True
  then show ?thesis by (simp add: roundDouble_def)
next
  case False
  define e where "e = max (exponentOf \<bar>x\<bar>) (- 1022)"
  define q :: real where "q = 2 powi (e - 52)"
  define r where "r = of_int (roundHalfEven (x / q)) * q"
  have q: "0 < q" by (simp add: q_def)
  have "r - x = (of_int (roundHalfEven (x / q)) - x / q) * q"
    using q by (simp add: r_def field_simps)
  then have "\<bar>r - x\<bar> = \<bar>of_int (roundHalfEven (x / q)) - x / q\<bar> * q"
    using q by (simp add: abs_mult)
  also have "\<dots> \<le> 1 / 2 * q"
    using roundHalfEven_error [of "x / q"] q by (intro mult_right_mono) simp_all
  finally have err: "\<bar>r - x\<bar> \<le> q / 2" by simp
  have "2 powi exponentOf \<bar>x\<bar> \<le> \<bar>x\<bar>"
    using exponentOf_bounds(1) [of "\<bar>x\<bar>"] False by simp
  with assms have le: "(2::real) powi exponentOf \<bar>x\<bar> \<le> 2 powi 1023" by simp
  have "exponentOf \<bar>x\<bar> \<le> 1023"
  proof (rule ccontr)
    assume "\<not> exponentOf \<bar>x\<bar> \<le> 1023"
    then have "1024 \<le> exponentOf \<bar>x\<bar>" by simp
    then have "(2::real) powi 1024 \<le> 2 powi exponentOf \<bar>x\<bar>"
      by (intro power_int_increasing) simp_all
    moreover have "(2::real) powi 1023 < 2 powi 1024"
      by (intro power_int_strict_increasing) simp_all
    ultimately show False using le by linarith
  qed
  then have "e \<le> 1023" by (simp add: e_def)
  then have "q \<le> 2 powi (1023 - 52)"
    unfolding q_def by (intro power_int_increasing) simp_all
  then have "q \<le> 2 powi 971" by simp
  also have "(2::real) powi 971 < 2 powi 1023"
    by (intro power_int_strict_increasing) simp_all
  finally have "q / 2 < 2 powi 1023" by simp
  with err assms have "\<bar>r\<bar> < 2 powi 1023 + 2 powi 1023" by linarith
  also have "(2::real) powi 1023 + 2 powi 1023 = 2 powi 1024"
    by (simp add: power_int_def)
  finally have "\<bar>r\<bar> < 2 powi 1024" .
  then show ?thesis
    using False by (simp add: roundDouble_def Let_def q_def e_def r_def)
qed

lemma roundDouble_bounded:
  assumes "\<bar>x\<bar> \<le> B" and "B \<le> 2 powi 1023"
  shows "\<exists>r. roundDouble x = Some r \<and> \<bar>r\<bar> \<le> 2 * B + 1"
proof -
  from assms have "\<bar>x\<bar> \<le> 2 powi 1023" by linarith
  from roundDouble_finite [OF this] obtain r where r: "roundDouble x = Some r" ..
  have u: "(2::real) powi (- 53) \<le> 1"
    by (simp add: power_int_minus)
  have h: "(2::real) powi (- 1075) \<le> 1"
    by (simp add: power_int_minus)
  have "2 powi (- 53) * \<bar>x\<bar> \<le> 1 * \<bar>x\<bar>"
    using u by (intro mult_right_mono) simp_all
  with roundDouble_error [OF r] h have "\<bar>r - x\<bar> \<le> \<bar>x\<bar> + 1" by linarith
  with assms(1) have "\<bar>r\<bar> \<le> 2 * B + 1" by linarith
  with r show ?thesis by blast
qed

text \<open>
  One coordinate through \<open>p * s + o\<close> and \<open>(x - o) / s\<close>: the error of the four
  roundings, and the range in which none of them overflows.
\<close>

lemma round_trip_axis:
  assumes s: "0 < s"
    and a: "dmul p s = Some a" and b: "dadd a o' = Some b"
    and c: "dsub b o' = Some c" and w: "ddiv c s = Some w"
  shows "\<bar>w - p\<bar> \<le> 2 powi (- 50) * (\<bar>p\<bar> + \<bar>o'\<bar> / s) + 2 powi (- 1073) / s + 2 powi (- 1075)"
proof -
  define ps where "ps = p * s"
  define ws where "ws = w * s"
  define H :: real where "H = 2 powi (- 1075)"
  have u: "(2::real) powi (- 53) = 1 / 9007199254740992"
    by (simp add: power_int_minus)
  have H: "0 \<le> H" by (simp add: H_def)
  have e1: "\<bar>a - ps\<bar> \<le> \<bar>ps\<bar> / 9007199254740992 + H"
    using roundDouble_error [of "p * s" a] a by (simp add: dmul_def ps_def u H_def)
  have e2: "\<bar>b - (a + o')\<bar> \<le> \<bar>a + o'\<bar> / 9007199254740992 + H"
    using roundDouble_error [of "a + o'" b] b by (simp add: dadd_def u H_def)
  have e3: "\<bar>c - (b - o')\<bar> \<le> \<bar>b - o'\<bar> / 9007199254740992 + H"
    using roundDouble_error [of "b - o'" c] c by (simp add: dsub_def u H_def)
  have "\<bar>w - c / s\<bar> \<le> \<bar>c / s\<bar> / 9007199254740992 + H"
    using roundDouble_error [of "c / s" w] w s by (simp add: ddiv_def u H_def)
  then have "\<bar>w - c / s\<bar> * s \<le> (\<bar>c / s\<bar> / 9007199254740992 + H) * s"
    using s by (intro mult_right_mono) simp_all
  moreover have "w * s - c = (w - c / s) * s"
    using s by (simp add: field_simps)
  then have "\<bar>ws - c\<bar> = \<bar>w - c / s\<bar> * s"
    using s by (simp add: ws_def abs_mult)
  moreover have "(\<bar>c / s\<bar> / 9007199254740992 + H) * s = \<bar>c\<bar> / 9007199254740992 + H * s"
    using s by (simp add: abs_divide field_simps)
  ultimately have e4: "\<bar>ws - c\<bar> \<le> \<bar>c\<bar> / 9007199254740992 + H * s" by simp
  have t1: "\<bar>a\<bar> \<le> \<bar>ps\<bar> + \<bar>a - ps\<bar>" by linarith
  have t2: "\<bar>a + o'\<bar> \<le> \<bar>a\<bar> + \<bar>o'\<bar>" by linarith
  have t3: "\<bar>b - o'\<bar> \<le> \<bar>a\<bar> + \<bar>b - (a + o')\<bar>" by linarith
  have t4: "\<bar>c - ps\<bar> \<le> \<bar>c - (b - o')\<bar> + \<bar>b - (a + o')\<bar> + \<bar>a - ps\<bar>" by linarith
  have t5: "\<bar>c\<bar> \<le> \<bar>ps\<bar> + \<bar>c - ps\<bar>" by linarith
  have t6: "\<bar>ws - ps\<bar> \<le> \<bar>ws - c\<bar> + \<bar>c - ps\<bar>" by linarith
  have "\<bar>ws - ps\<bar> \<le> (\<bar>ps\<bar> + \<bar>o'\<bar>) / 1125899906842624 + 4 * H + H * s"
  proof -
    define A O' Na E1 S2 E2 D3 E3 Nc Ec E4 G Hs
      where "A = \<bar>ps\<bar>" and "O' = \<bar>o'\<bar>" and "Na = \<bar>a\<bar>" and "E1 = \<bar>a - ps\<bar>"
        and "S2 = \<bar>a + o'\<bar>" and "E2 = \<bar>b - (a + o')\<bar>" and "D3 = \<bar>b - o'\<bar>"
        and "E3 = \<bar>c - (b - o')\<bar>" and "Nc = \<bar>c\<bar>" and "Ec = \<bar>c - ps\<bar>"
        and "E4 = \<bar>ws - c\<bar>" and "G = \<bar>ws - ps\<bar>" and "Hs = H * s"
    note d = this
    have nn: "0 \<le> A" "0 \<le> O'" by (simp_all add: d)
    have "G \<le> (A + O') / 1125899906842624 + 4 * H + Hs"
      using e1 e2 e3 e4 t1 t2 t3 t4 t5 t6 nn H unfolding d [symmetric] by argo
    then show ?thesis by (simp add: d)
  qed
  moreover have "ws - ps = (w - p) * s"
    by (simp add: ws_def ps_def algebra_simps)
  then have "\<bar>ws - ps\<bar> = \<bar>w - p\<bar> * s"
    using s by (simp add: abs_mult)
  moreover have "(\<bar>ps\<bar> + \<bar>o'\<bar>) / 1125899906842624 + 4 * H + H * s =
      (2 powi (- 50) * (\<bar>p\<bar> + \<bar>o'\<bar> / s) + 2 powi (- 1073) / s + 2 powi (- 1075)) * s"
  proof -
    define K :: real where "K = 2 powi (- 1073)"
    define P :: real where "P = 2 powi (- 50)"
    have "(4::real) * 2 powi (- 1075) = 2 powi (- 1073)"
      by (simp add: power_int_minus)
    then have k: "4 * H = K" by (simp only: H_def K_def)
    have f2: "\<bar>ps\<bar> = \<bar>p\<bar> * s"
      using s by (simp add: ps_def abs_mult)
    have "(\<bar>p\<bar> * s + \<bar>o'\<bar>) / 1125899906842624 = P * (\<bar>p\<bar> * s + \<bar>o'\<bar>)"
      by (simp add: P_def power_int_minus)
    also have "\<dots> = P * (\<bar>p\<bar> + \<bar>o'\<bar> / s) * s"
      using s by (simp add: field_simps)
    finally have f1: "(\<bar>p\<bar> * s + \<bar>o'\<bar>) / 1125899906842624 = P * (\<bar>p\<bar> + \<bar>o'\<bar> / s) * s" .
    have "(\<bar>ps\<bar> + \<bar>o'\<bar>) / 1125899906842624 + 4 * H + H * s =
        P * (\<bar>p\<bar> + \<bar>o'\<bar> / s) * s + K + H * s"
      by (simp only: k f2 f1)
    also have "\<dots> = (P * (\<bar>p\<bar> + \<bar>o'\<bar> / s) + K / s + H) * s"
      using s by (simp add: field_simps)
    finally show ?thesis
      by (simp only: K_def P_def H_def)
  qed
  ultimately have "\<bar>w - p\<bar> * s \<le>
      (2 powi (- 50) * (\<bar>p\<bar> + \<bar>o'\<bar> / s) + 2 powi (- 1073) / s + 2 powi (- 1075)) * s"
    by simp
  with s show ?thesis
    by (simp only: mult_le_cancel_right_pos)
qed

lemma round_trip_axis_finite:
  assumes s: "1 / 5 \<le> s" "s \<le> 3"
    and p: "\<bar>p\<bar> \<le> 2 powi 1000" and o': "\<bar>o'\<bar> \<le> 2 powi 1000"
  shows "\<exists>a b c w. dmul p s = Some a \<and> dadd a o' = Some b \<and> dsub b o' = Some c \<and>
           ddiv c s = Some w"
proof -
  define M :: real where "M = 2 powi 1000"
  have M1: "1 \<le> M"
    unfolding M_def by (rule one_le_power_int) simp_all
  have "(2::real) powi (23 + 1000) = 2 powi 23 * 2 powi 1000"
    by (rule power_int_add) simp
  moreover have "(23::int) + 1000 = 1023" by simp
  moreover have "(2::real) powi 23 = 8388608" by simp
  ultimately have top: "2 powi 1023 = 8388608 * M"
    by (simp only: M_def)
  have pM: "\<bar>p\<bar> \<le> M" using p by (simp only: M_def)
  have oM: "\<bar>o'\<bar> \<le> M" using o' by (simp only: M_def)
  have "\<bar>p * s\<bar> = \<bar>p\<bar> * s" using s by (simp add: abs_mult)
  also have "\<dots> \<le> M * 3"
    using pM s M1 by (intro mult_mono) simp_all
  finally have "\<bar>p * s\<bar> \<le> 3 * M" by simp
  moreover have "3 * M \<le> 2 powi 1023" using M1 unfolding top by simp
  ultimately obtain a where a: "dmul p s = Some a" "\<bar>a\<bar> \<le> 2 * (3 * M) + 1"
    using roundDouble_bounded [of "p * s" "3 * M"] by (auto simp: dmul_def)
  have "\<bar>a + o'\<bar> \<le> 8 * M" using a(2) oM M1 by linarith
  moreover have "8 * M \<le> 2 powi 1023" using M1 unfolding top by simp
  ultimately obtain b where b: "dadd a o' = Some b" "\<bar>b\<bar> \<le> 2 * (8 * M) + 1"
    using roundDouble_bounded [of "a + o'" "8 * M"] by (auto simp: dadd_def)
  have "\<bar>b - o'\<bar> \<le> 18 * M" using b(2) oM M1 by linarith
  moreover have "18 * M \<le> 2 powi 1023" using M1 unfolding top by simp
  ultimately obtain c where c: "dsub b o' = Some c" "\<bar>c\<bar> \<le> 2 * (18 * M) + 1"
    using roundDouble_bounded [of "b - o'" "18 * M"] by (auto simp: dsub_def)
  have "\<bar>c / s\<bar> = \<bar>c\<bar> / s" using s by (simp add: abs_divide)
  also have "\<dots> = \<bar>c\<bar> * (1 / s)" by simp
  also have "\<dots> \<le> \<bar>c\<bar> * 5"
    using s by (intro mult_left_mono) (simp_all add: field_simps)
  also have "\<dots> \<le> 185 * M" using c(2) M1 by linarith
  finally have "\<bar>c / s\<bar> \<le> 185 * M" .
  moreover have "185 * M \<le> 2 powi 1023" using M1 unfolding top by simp
  ultimately obtain w where "ddiv c s = Some w"
    using roundDouble_bounded [of "c / s" "185 * M"] s by (auto simp: ddiv_def)
  with a b c show ?thesis by blast
qed

lemma roundingError_ge:
  assumes s: "1 / 5 \<le> s"
  shows "2 powi (- 50) * (\<bar>p\<bar> + \<bar>o'\<bar> / s) + 2 powi (- 1073) / s + 2 powi (- 1075)
         \<le> roundingError s o' p"
proof -
  define H :: real where "H = 2 powi (- 1075)"
  have H: "0 \<le> H" by (simp add: H_def)
  have k: "(2::real) powi (- 1073) = 4 * H"
    by (simp add: H_def power_int_minus)
  have k': "(2::real) powi (- 1070) = 32 * H"
    by (simp add: H_def power_int_minus)
  have "1 / s \<le> 5"
    using s by (simp add: field_simps)
  then have "4 * H * (1 / s) \<le> 4 * H * 5"
    using H by (intro mult_left_mono) simp_all
  then have "4 * H / s \<le> 4 * H * 5" by simp
  then have "4 * H / s + H \<le> 32 * H" using H by linarith
  then show ?thesis
    unfolding roundingError_def k k' H_def [symmetric] by linarith
qed

lemma round_trip_axes:
  assumes "Option.bind (worldToScreenDouble vt p) (screenToWorldDouble vt) = Some q"
  shows "\<exists>a b c. dmul (fst p) (scale vt) = Some a \<and> dadd a (offsetX vt) = Some b \<and>
           dsub b (offsetX vt) = Some c \<and> ddiv c (scale vt) = Some (fst q)"
    and "\<exists>a b c. dmul (snd p) (scale vt) = Some a \<and> dadd a (offsetY vt) = Some b \<and>
           dsub b (offsetY vt) = Some c \<and> ddiv c (scale vt) = Some (snd q)"
  using assms
  by (auto simp: worldToScreenDouble_def screenToWorldDouble_def bind_eq_Some_conv)

lemma round_trip_returns:
  assumes "dmul (fst p) (scale vt) = Some a" and "dadd a (offsetX vt) = Some b"
    and "dsub b (offsetX vt) = Some c" and "ddiv c (scale vt) = Some x"
    and "dmul (snd p) (scale vt) = Some a'" and "dadd a' (offsetY vt) = Some b'"
    and "dsub b' (offsetY vt) = Some c'" and "ddiv c' (scale vt) = Some y"
  shows "Option.bind (worldToScreenDouble vt p) (screenToWorldDouble vt) = Some (x, y)"
  using assms by (simp add: worldToScreenDouble_def screenToWorldDouble_def)

text \<open>The steps of the example, by evaluation.\<close>

lemma bitlen_1: "bitlen 1 = 1"
  by (simp add: bitlen_alt_def)

lemma double_steps:
  "roundDouble (7 / 10) = Some (6305039478318694 / 9007199254740992)"
  "dmul (6305039478318694 / 9007199254740992) (3 / 2) = Some (4728779608739020 / 4503599627370496)"
  "dadd (4728779608739020 / 4503599627370496) 0 = Some (4728779608739020 / 4503599627370496)"
  "dsub (4728779608739020 / 4503599627370496) 0 = Some (4728779608739020 / 4503599627370496)"
  "ddiv (4728779608739020 / 4503599627370496) (3 / 2) = Some (6305039478318693 / 9007199254740992)"
  "dmul 0 (3 / 2) = Some 0" "dadd 0 0 = Some 0" "dsub 0 0 = Some 0" "ddiv 0 (3 / 2) = Some 0"
  by (simp_all add: dmul_def dadd_def dsub_def ddiv_def roundDouble_def exponentOf_def bitlen_1
      Let_def roundHalfEven_def power_int_minus)

lemma zoomedView_round_trip:
  "worldToScreenDouble zoomedView pointSeven = Some pointSevenOnScreen"
  "screenToWorldDouble zoomedView pointSevenOnScreen = Some pointSevenReturned"
  unfolding worldToScreenDouble_def screenToWorldDouble_def zoomedView_def pointSeven_def
    pointSevenOnScreen_def pointSevenReturned_def
  by (simp_all only: ViewTransform.select_convs fst_conv snd_conv double_steps Option.bind.simps)

text \<open>
  Claim C3, as stated: the two conversions are exact inverses,
  \<open>screenToWorld (worldToScreen p) = p\<close>, for every scale in \<open>[0.2, 3.0]\<close>. It fails in
  the arithmetic of the code: at scale 1.5 with offsets 0, the point whose \<open>x\<close> is the
  double written \<open>0.7\<close> goes to the screen at \<open>1.0499999999999998\<close> and comes back as
  \<open>0.6999999999999998\<close>, the double next below \<open>0.7\<close>.
\<close>

theorem conversions_exact_inverses_counterexample:
  "MIN_SCALE \<le> scale zoomedView \<and> scale zoomedView \<le> MAX_SCALE \<and>
   roundDouble (7 / 10) = Some (fst pointSeven) \<and>
   worldToScreenDouble zoomedView pointSeven = Some pointSevenOnScreen \<and>
   screenToWorldDouble zoomedView pointSevenOnScreen = Some pointSevenReturned \<and>
   pointSevenReturned \<noteq> pointSeven \<and>
   fst pointSeven - fst pointSevenReturned = 2 powi (- 53)"
proof -
  have "MIN_SCALE \<le> scale zoomedView" "scale zoomedView \<le> MAX_SCALE"
    by (simp_all add: MIN_SCALE_def MAX_SCALE_def zoomedView_def)
  moreover have "roundDouble (7 / 10) = Some (fst pointSeven)"
    unfolding pointSeven_def by (simp only: fst_conv double_steps)
  moreover have "pointSevenReturned \<noteq> pointSeven"
    "fst pointSeven - fst pointSevenReturned = 2 powi (- 53)"
    by (simp_all add: pointSeven_def pointSevenReturned_def power_int_minus)
  ultimately show ?thesis
    by (simp only: zoomedView_round_trip simp_thms)
qed

text \<open>
  Claim C3, amended. For every view transform whose scale lies in \<open>[0.2, 3.0]\<close>, with any
  offsets, and every point \<open>p\<close>: in exact arithmetic the two conversions are inverse to
  each other (both compositions are the identity); in the double arithmetic of the code
  \<open>screenToWorld (worldToScreen p)\<close> is \<open>p\<close> up to rounding only: each coordinate of a
  result differs from that of \<open>p\<close> by at most
  \<open>2 ^ (- 50) * (\<bar>p\<bar> + \<bar>offset\<bar> / scale) + 2 ^ (- 1070)\<close>, and there is a result (no
  operation overflows) when the coordinates of \<open>p\<close> and the offsets are at most
  \<open>2 ^ 1000\<close> in magnitude.
\<close>

theorem conversions_inverse_up_to_rounding:
  assumes "MIN_SCALE \<le> scale vt" and "scale vt \<le> MAX_SCALE"
  shows "screenToWorld vt (worldToScreen vt p) = p \<and>
         worldToScreen vt (screenToWorld vt p) = p \<and>
         (\<forall>q. Option.bind (worldToScreenDouble vt p) (screenToWorldDouble vt) = Some q \<longrightarrow>
              \<bar>fst q - fst p\<bar> \<le> roundingError (scale vt) (offsetX vt) (fst p) \<and>
              \<bar>snd q - snd p\<bar> \<le> roundingError (scale vt) (offsetY vt) (snd p)) \<and>
         (\<bar>fst p\<bar> \<le> 2 powi 1000 \<and> \<bar>snd p\<bar> \<le> 2 powi 1000 \<and>
          \<bar>offsetX vt\<bar> \<le> 2 powi 1000 \<and> \<bar>offsetY vt\<bar> \<le> 2 powi 1000 \<longrightarrow>
            (\<exists>q. Option.bind (worldToScreenDouble vt p) (screenToWorldDouble vt) = Some q))"
proof -
  from assms have lo: "1 / 5 \<le> scale vt" and hi: "scale vt \<le> 3"
    by (simp_all add: MIN_SCALE_def MAX_SCALE_def)
  then have pos: "0 < scale vt" by simp
  have exact: "screenToWorld vt (worldToScreen vt p) = p \<and>
      worldToScreen vt (screenToWorld vt p) = p"
    using pos by (simp add: screenToWorld_def worldToScreen_def)
  have close: "\<bar>fst q - fst p\<bar> \<le> roundingError (scale vt) (offsetX vt) (fst p) \<and>
      \<bar>snd q - snd p\<bar> \<le> roundingError (scale vt) (offsetY vt) (snd p)"
    if q: "Option.bind (worldToScreenDouble vt p) (screenToWorldDouble vt) = Some q" for q
  proof
    from round_trip_axes(1) [OF q] obtain a b c
      where "dmul (fst p) (scale vt) = Some a" and "dadd a (offsetX vt) = Some b"
        and "dsub b (offsetX vt) = Some c" and "ddiv c (scale vt) = Some (fst q)"
      by blast
    from round_trip_axis [OF pos this] roundingError_ge [OF lo, of "fst p" "offsetX vt"]
    show "\<bar>fst q - fst p\<bar> \<le> roundingError (scale vt) (offsetX vt) (fst p)"
      by linarith
  next
    from round_trip_axes(2) [OF q] obtain a b c
      where "dmul (snd p) (scale vt) = Some a" and "dadd a (offsetY vt) = Some b"
        and "dsub b (offsetY vt) = Some c" and "ddiv c (scale vt) = Some (snd q)"
      by blast
    from round_trip_axis [OF pos this] roundingError_ge [OF lo, of "snd p" "offsetY vt"]
    show "\<bar>snd q - snd p\<bar> \<le> roundingError (scale vt) (offsetY vt) (snd p)"
      by linarith
  qed
  have returns: "\<exists>q. Option.bind (worldToScreenDouble vt p) (screenToWorldDouble vt) = Some q"
    if "\<bar>fst p\<bar> \<le> 2 powi 1000" and "\<bar>snd p\<bar> \<le> 2 powi 1000"
      and "\<bar>offsetX vt\<bar> \<le> 2 powi 1000" and "\<bar>offsetY vt\<bar> \<le> 2 powi 1000"
  proof -
    from round_trip_axis_finite [OF lo hi that(1) that(3)] obtain a b c x
      where x: "dmul (fst p) (scale vt) = Some a" "dadd a (offsetX vt) = Some b"
        "dsub b (offsetX vt) = Some c" "ddiv c (scale vt) = Some x"
      by blast
    from round_trip_axis_finite [OF lo hi that(2) that(4)] obtain a' b' c' y
      where y: "dmul (snd p) (scale vt) = Some a'" "dadd a' (offsetY vt) = Some b'"
        "dsub b' (offsetY vt) = Some c'" "ddiv c' (scale vt) = Some y"
      by blast
    from round_trip_returns [OF x y] show ?thesis ..
  qed
  from exact close returns show ?thesis by blast
qed

theorem conversions_inverse_up_to_rounding_witness:
  "screenToWorld zoomedView (worldToScreen zoomedView pointSeven) = pointSeven \<and>
   Option.bind (worldToScreenDouble zoomedView pointSeven) (screenToWorldDouble zoomedView) =
     Some pointSevenReturned \<and>
   \<bar>fst pointSevenReturned - fst pointSeven\<bar>
     \<le> roundingError (scale zoomedView) (offsetX zoomedView) (fst pointSeven) \<and>
   \<bar>snd pointSevenReturned - snd pointSeven\<bar>
     \<le> roundingError (scale zoomedView) (offsetY zoomedView) (snd pointSeven)"
proof -
  have v: "MIN_SCALE \<le> scale zoomedView" "scale zoomedView \<le> MAX_SCALE"
    by (simp_all add: MIN_SCALE_def MAX_SCALE_def zoomedView_def)
  have q: "Option.bind (worldToScreenDouble zoomedView pointSeven)
      (screenToWorldDouble zoomedView) = Some pointSevenReturned"
    by (simp only: zoomedView_round_trip Option.bind.simps)
  note T = conversions_inverse_up_to_rounding [OF v, of pointSeven]
  from T have "screenToWorld zoomedView (worldToScreen zoomedView pointSeven) = pointSeven"
    by blast
  moreover from T q have "\<bar>fst pointSevenReturned - fst pointSeven\<bar>
     \<le> roundingError (scale zoomedView) (offsetX zoomedView) (fst pointSeven) \<and>
   \<bar>snd pointSevenReturned - snd pointSeven\<bar>
     \<le> roundingError (scale zoomedView) (offsetY zoomedView) (snd pointSeven)"
    by blast
  ultimately show ?thesis using q by blast
qed

section \<open>C4: zooming keeps the point under the cursor\<close>

text \<open>
  Claim C4. For a wheel event over empty canvas (no object hit, not dragging, not
  panning) at the screen point \<open>s\<close>, with the scale in \<open>[0.2, 3.0]\<close>: the world point
  that the old view transform maps to \<open>s\<close> is mapped to \<open>s\<close> by the new one as well, the
  new scale being the old one times or divided by 1.1, clamped to \<open>[0.2, 3.0]\<close>.
\<close>

theorem wheel_zoom_keeps_cursor_point:
  assumes rect: "canvasRect st = Some rect"
    and lo: "MIN_SCALE \<le> scale (viewTransform st)"
    and hi: "scale (viewTransform st) \<le> MAX_SCALE"
    and miss: "getImageAtPosition (viewTransform st) (images st)
                 (clientX - rect_left rect) (clientY - rect_top rect) = None"
    and idle: "draggingImage st = None" "\<not> isPanning st"
    and under: "worldToScreen (viewTransform st) w =
                 (clientX - rect_left rect, clientY - rect_top rect)"
  shows "\<exists>st'. handleWheel st clientX clientY deltaY = Some st' \<and>
           worldToScreen (viewTransform st') w =
             (clientX - rect_left rect, clientY - rect_top rect) \<and>
           scale (viewTransform st') =
             max MIN_SCALE (min MAX_SCALE
               (if deltaY < 0 then scale (viewTransform st) * 1.1
                else scale (viewTransform st) / 1.1)) \<and>
           MIN_SCALE \<le> scale (viewTransform st') \<and> scale (viewTransform st') \<le> MAX_SCALE"
proof -
  let ?vt = "viewTransform st"
  let ?x = "clientX - rect_left rect" and ?y = "clientY - rect_top rect"
  from lo have nz: "scale ?vt \<noteq> 0"
    by (simp add: MIN_SCALE_def)
  from under nz have wx: "fst w = (?x - offsetX ?vt) / scale ?vt"
    and wy: "snd w = (?y - offsetY ?vt) / scale ?vt"
    by (auto simp: worldToScreen_def field_simps)
  have range: "MIN_SCALE \<le> max MIN_SCALE (min MAX_SCALE r) \<and>
               max MIN_SCALE (min MAX_SCALE r) \<le> MAX_SCALE" for r
    by (simp add: MIN_SCALE_def MAX_SCALE_def)
  show ?thesis
    using rect miss idle nz range
    by (simp add: handleWheel_def wheelCanvas_def Let_def worldToScreen_def wx wy)
qed

theorem wheel_zoom_keeps_cursor_point_witness:
  "worldToScreen (viewTransform emptyCanvas) (10, 20) = (30, 60) \<and>
   (\<exists>st'. handleWheel emptyCanvas 30 60 (-1) = Some st' \<and>
      worldToScreen (viewTransform st') (10, 20) = (30, 60) \<and>
      scale (viewTransform st') = 3)"
  using wheel_zoom_keeps_cursor_point
    [of emptyCanvas "\<lparr>rect_left = 0, rect_top = 0\<rparr>" 30 60 "(10, 20)" "-1"]
  by (auto simp add: emptyCanvas_def MIN_SCALE_def MAX_SCALE_def getImageAtPosition_def
      worldToScreen_def)

section \<open>C5: the width of an object and the clamp\<close>

lemma hitLoop_member:
  "hitLoop wx wy imgs n = Some t \<Longrightarrow> n \<le> length imgs \<Longrightarrow> t \<in> set imgs"
  by (induction n) (auto split: if_splits)

lemma getImageAtPosition_member:
  "getImageAtPosition vt imgs sx sy = Some t \<Longrightarrow> t \<in> set imgs"
  by (auto simp: getImageAtPosition_def Let_def hitLoop_member split: if_splits)

lemma widthInRange_wheelScaleImage:
  "widthInRange img \<Longrightarrow> widthInRange (wheelScaleImage tid f img)"
  by (simp add: widthInRange_def wheelScaleImage_def Let_def MIN_WIDTH_def MAX_WIDTH_def)

lemma widthInRange_pinchScaleImage:
  "widthInRange img \<Longrightarrow> widthInRange (pinchScaleImage pid d iw ih cx cy nd img)"
  by (simp add: widthInRange_def pinchScaleImage_def Let_def MIN_WIDTH_def MAX_WIDTH_def)

lemma widthInRange_nonzero: "widthInRange img \<Longrightarrow> img_width img \<noteq> 0"
  by (simp add: widthInRange_def MIN_WIDTH_def)

lemma validScale_clamp:
  "validScale \<lparr>scale = max MIN_SCALE (min MAX_SCALE r), offsetX = a, offsetY = b\<rparr>"
  by (simp add: validScale_def MIN_SCALE_def MAX_SCALE_def)

lemma validScale_nonzero: "validScale vt \<Longrightarrow> scale vt \<noteq> 0"
  by (simp add: validScale_def MIN_SCALE_def)

lemma hypot_pos: "a \<noteq> 0 \<or> b \<noteq> 0 \<Longrightarrow> hypot a b > 0"
  unfolding hypot_def by (auto simp: sum_power2_gt_zero_iff)

lemma sceneOk_wheelObject:
  assumes "sceneOk st"
  shows "\<exists>st'. wheelObject st t dy = Some st' \<and> sceneOk st'"
proof -
  from assms have "list_all widthInRange (images st)" by (simp add: sceneOk_def)
  then have nz: "\<not> list_ex (\<lambda>img. img_id img = img_id t \<and> img_width img = 0) (images st)"
    by (auto simp: list_all_iff list_ex_iff dest: widthInRange_nonzero)
  from assms show ?thesis
    using nz
    by (auto simp: wheelObject_def Let_def sceneOk_def list_all_iff widthInRange_wheelScaleImage)
qed

lemma sceneOk_wheelCanvas:
  assumes "sceneOk st"
  shows "\<exists>st'. wheelCanvas st x y dy = Some st' \<and> sceneOk st'"
  using assms validScale_nonzero [of "viewTransform st"]
  by (auto simp: wheelCanvas_def Let_def sceneOk_def validScale_clamp)

lemma sceneOk_handleWheel:
  assumes "sceneOk st"
  shows "\<exists>st'. handleWheel st cx cy dy = Some st' \<and> sceneOk st'"
  using assms sceneOk_wheelObject [OF assms] sceneOk_wheelCanvas [OF assms]
  by (auto simp: handleWheel_def Let_def split: option.splits)

lemma sceneOk_handleInteractionStart:
  assumes "sceneOk st"
  shows "sceneOk (handleInteractionStart st cx cy)"
  using assms
  by (auto simp: handleInteractionStart_def Let_def sceneOk_def list_all_iff
      split: option.splits dest: getImageAtPosition_member)

lemma sceneOk_handleInteractionMove:
  assumes "sceneOk st"
  shows "\<exists>st'. handleInteractionMove st cx cy = Some st' \<and> sceneOk st'"
  using assms validScale_nonzero [of "viewTransform st"]
  by (auto simp: handleInteractionMove_def Let_def sceneOk_def validScale_def list_all_iff
      widthInRange_def split: option.splits)

lemma sceneOk_handleInteractionEnd:
  "sceneOk st \<Longrightarrow> sceneOk (handleInteractionEnd st)"
  by (simp add: handleInteractionEnd_def sceneOk_def)

lemma sceneOk_handleTouchEnd:
  "sceneOk st \<Longrightarrow> sceneOk (handleTouchEnd st ts)"
  by (simp add: handleTouchEnd_def handleInteractionEnd_def sceneOk_def Let_def)

lemma sceneOk_handleTouchStart:
  assumes "sceneOk st" and "touchesApart (TouchStart ts)"
  shows "sceneOk (handleTouchStart st ts)"
proof (cases "canvasRect st")
  case None
  with assms show ?thesis by (simp add: handleTouchStart_def)
next
  case (Some rect)
  show ?thesis
  proof (cases "length ts = 1 \<and> pinchState st = None")
    case True
    with Some assms show ?thesis
      by (simp add: handleTouchStart_def sceneOk_handleInteractionStart)
  next
    case False
    show ?thesis
    proof (cases "length ts = 2")
      case two: True
      with assms(2) have "ts ! 0 \<noteq> ts ! 1" by simp
      then have "fst (ts ! 0) - fst (ts ! 1) \<noteq> 0 \<or> snd (ts ! 0) - snd (ts ! 1) \<noteq> 0"
        by (auto simp: prod_eq_iff)
      then have d: "hypot (fst (ts ! 0) - fst (ts ! 1)) (snd (ts ! 0) - snd (ts ! 1)) > 0"
        by (rule hypot_pos)
      from assms(1) have w: "list_all widthInRange (images st)" by (simp add: sceneOk_def)
      have mem: "getImageAtPosition vt (images st) mx my = Some t \<Longrightarrow> widthInRange t"
        for vt mx my t
        using w getImageAtPosition_member [of vt "images st" mx my t]
        by (auto simp: list_all_iff)
      show ?thesis
        using Some False two d assms(1)
        by (auto simp: handleTouchStart_def Let_def sceneOk_def list_all_iff
            split: option.splits
            dest: getImageAtPosition_member mem [unfolded widthInRange_def])
    next
      case False
      with Some \<open>\<not> (length ts = 1 \<and> pinchState st = None)\<close> assms show ?thesis
        by (auto simp: handleTouchStart_def)
    qed
  qed
qed

lemma sceneOk_handleTouchMove:
  assumes "sceneOk st"
  shows "\<exists>st'. handleTouchMove st ts = Some st' \<and> sceneOk st'"
proof (cases "length ts = 1 \<and> pinchState st = None")
  case True
  then show ?thesis
    using sceneOk_handleInteractionMove [OF assms] by (simp add: handleTouchMove_def)
next
  case False
  show ?thesis
  proof (cases "pinchState st")
    case None
    with False show ?thesis using assms by (simp add: handleTouchMove_def)
  next
    case (Some ps)
    show ?thesis
    proof (cases "length ts = 2")
      case False
      with Some show ?thesis using assms by (simp add: handleTouchMove_def)
    next
      case two: True
      show ?thesis
      proof (cases ps)
        case (ObjectPinch pid d iw ih cx cy)
        with Some assms have "d \<noteq> 0" "iw \<noteq> 0"
          by (auto simp: sceneOk_def MIN_WIDTH_def)
        with ObjectPinch Some two assms show ?thesis
          by (auto simp: handleTouchMove_def Let_def sceneOk_def list_all_iff
              widthInRange_pinchScaleImage)
      next
        case (CanvasPinch d ivt mp)
        with Some assms have "d \<noteq> 0" "scale ivt \<noteq> 0"
          by (auto simp: sceneOk_def dest: validScale_nonzero)
        with CanvasPinch Some two assms show ?thesis
          by (auto simp: handleTouchMove_def Let_def sceneOk_def validScale_clamp
              split: option.splits)
      qed
    qed
  qed
qed

lemma sceneOk_handleEvent:
  assumes "sceneOk st" and "touchesApart ev"
  shows "\<exists>st'. handleEvent st ev = Some st' \<and> sceneOk st'"
proof (cases ev)
  case (WheelEvent cx cy dy)
  then show ?thesis using sceneOk_handleWheel [OF assms(1)] by simp
next
  case (MouseDown cx cy)
  then show ?thesis using sceneOk_handleInteractionStart [OF assms(1)] by simp
next
  case (MouseMove cx cy)
  then show ?thesis using sceneOk_handleInteractionMove [OF assms(1)] by simp
next
  case MouseUp
  then show ?thesis using sceneOk_handleInteractionEnd [OF assms(1)] by simp
next
  case (TouchStart ts)
  then show ?thesis using sceneOk_handleTouchStart [OF assms(1)] assms(2) by simp
next
  case (TouchMove ts)
  then show ?thesis using sceneOk_handleTouchMove [OF assms(1)] by simp
next
  case (TouchEnd ts)
  then show ?thesis using sceneOk_handleTouchEnd [OF assms(1)] by simp
qed

lemma sceneOk_runEvents:
  "sceneOk st \<Longrightarrow> list_all touchesApart evs \<Longrightarrow>
     \<exists>st'. runEvents st evs = Some st' \<and> sceneOk st'"
proof (induction evs arbitrary: st)
  case Nil
  then show ?case by simp
next
  case (Cons ev evs)
  from Cons.prems obtain st1 where st1: "handleEvent st ev = Some st1" "sceneOk st1"
    using sceneOk_handleEvent [of st ev] by auto
  from Cons.IH [OF st1(2)] Cons.prems(2) st1(1) show ?case by simp
qed

lemma img_id_wheelScaleImage: "img_id (wheelScaleImage tid f img) = img_id img"
  by (simp add: wheelScaleImage_def Let_def)

lemma img_id_pinchScaleImage:
  "img_id (pinchScaleImage pid d iw ih cx cy nd img) = img_id img"
  by (simp add: pinchScaleImage_def Let_def)

lemma objectInRange_handleWheel:
  assumes "objectInRange k st" and "handleWheel st cx cy dy = Some st'"
  shows "objectInRange k st'"
  using assms
  by (auto simp: handleWheel_def wheelObject_def wheelCanvas_def Let_def objectInRange_def
      img_id_wheelScaleImage widthInRange_wheelScaleImage split: option.splits if_splits)

lemma objectInRange_handleInteractionStart:
  assumes "objectInRange k st"
  shows "objectInRange k (handleInteractionStart st cx cy)"
  using assms
  by (auto simp: handleInteractionStart_def Let_def objectInRange_def
      split: option.splits dest: getImageAtPosition_member)

lemma objectInRange_handleInteractionMove:
  assumes "objectInRange k st" and "handleInteractionMove st cx cy = Some st'"
  shows "objectInRange k st'"
  using assms
  by (auto simp: handleInteractionMove_def Let_def objectInRange_def widthInRange_def
      split: option.splits if_splits)

lemma objectInRange_handleTouchStart:
  assumes "objectInRange k st"
  shows "objectInRange k (handleTouchStart st ts)"
proof (cases "length ts = 1 \<and> pinchState st = None")
  case True
  with assms show ?thesis
    by (auto simp: handleTouchStart_def objectInRange_handleInteractionStart split: option.splits)
next
  case False
  with assms show ?thesis
    by (auto simp: handleTouchStart_def Let_def objectInRange_def
        split: option.splits dest: getImageAtPosition_member)
qed

lemma objectInRange_handleTouchMove:
  assumes "objectInRange k st" and "handleTouchMove st ts = Some st'"
  shows "objectInRange k st'"
proof (cases "length ts = 1 \<and> pinchState st = None")
  case True
  with assms show ?thesis
    by (auto simp: handleTouchMove_def intro: objectInRange_handleInteractionMove)
next
  case False
  with assms show ?thesis
    by (auto simp: handleTouchMove_def Let_def objectInRange_def
        img_id_pinchScaleImage widthInRange_pinchScaleImage
        split: option.splits if_splits PinchState.splits)
qed

lemma objectInRange_handleTouchEnd:
  "objectInRange k st \<Longrightarrow> objectInRange k (handleTouchEnd st ts)"
  by (simp add: handleTouchEnd_def handleInteractionEnd_def objectInRange_def Let_def)

lemma objectInRange_handleEvent:
  assumes "objectInRange k st" and "handleEvent st ev = Some st'"
  shows "objectInRange k st'"
proof (cases ev)
  case (WheelEvent cx cy dy)
  with assms show ?thesis by (auto intro: objectInRange_handleWheel)
next
  case (MouseDown cx cy)
  with assms show ?thesis by (auto intro: objectInRange_handleInteractionStart)
next
  case (MouseMove cx cy)
  with assms show ?thesis by (auto intro: objectInRange_handleInteractionMove)
next
  case MouseUp
  with assms show ?thesis by (auto simp: handleInteractionEnd_def objectInRange_def)
next
  case (TouchStart ts)
  with assms show ?thesis by (auto intro: objectInRange_handleTouchStart)
next
  case (TouchMove ts)
  with assms show ?thesis by (auto intro: objectInRange_handleTouchMove)
next
  case (TouchEnd ts)
  with assms show ?thesis by (auto intro: objectInRange_handleTouchEnd)
qed

lemma objectInRange_runEvents:
  "objectInRange k st \<Longrightarrow> runEvents st evs = Some st' \<Longrightarrow> objectInRange k st'"
proof (induction evs arbitrary: st)
  case Nil
  then show ?case by simp
next
  case (Cons ev evs)
  from Cons.prems(2) obtain st1 where st1: "handleEvent st ev = Some st1"
    and rest: "runEvents st1 evs = Some st'"
    by (auto split: option.splits)
  from objectInRange_handleEvent [OF Cons.prems(1) st1] have "objectInRange k st1" .
  from Cons.IH [OF this rest] show ?case .
qed

text \<open>
  The clamp on the runs in which every pinch ratio has a value. Take an object, given by
  its id \<open>k\<close>, whose width is in \<open>[50, 1000]\<close>, and any finite sequence of wheel, mouse and
  touch events (wheel steps of 10 percent, pinch scalings, drags). After every event of
  the sequence, in the state the handlers have produced, the width of the object is in
  \<open>[50, 1000]\<close>. And the handlers do produce a state after every event (no stored number
  is infinite or NaN) when they start from a scene with every width and the scale in
  range and no gesture half done, and every two-finger gesture starts with its two touch
  points apart, so that the pinch ratio has a denominator that is not 0.
\<close>

theorem object_width_stays_in_range:
  assumes "\<forall>img \<in> set (images st).
             img_id img = k \<longrightarrow> MIN_WIDTH \<le> img_width img \<and> img_width img \<le> MAX_WIDTH"
    and "n \<le> length evs"
  shows "(\<forall>st'. runEvents st (take n evs) = Some st' \<longrightarrow>
            (\<forall>img \<in> set (images st').
               img_id img = k \<longrightarrow> MIN_WIDTH \<le> img_width img \<and> img_width img \<le> MAX_WIDTH)) \<and>
         (sceneOk st \<and> list_all touchesApart evs \<longrightarrow>
            (\<exists>st'. runEvents st (take n evs) = Some st'))"
proof (intro conjI allI impI)
  fix st'
  assume run: "runEvents st (take n evs) = Some st'"
  from assms(1) have "objectInRange k st"
    by (simp add: objectInRange_def widthInRange_def)
  from objectInRange_runEvents [OF this run]
  show "\<forall>img \<in> set (images st').
          img_id img = k \<longrightarrow> MIN_WIDTH \<le> img_width img \<and> img_width img \<le> MAX_WIDTH"
    by (simp add: objectInRange_def widthInRange_def)
next
  assume ok: "sceneOk st \<and> list_all touchesApart evs"
  then have "list_all touchesApart (take n evs)"
    by (auto simp: list_all_iff dest: in_set_takeD)
  with ok sceneOk_runEvents [of st "take n evs"]
  show "\<exists>st'. runEvents st (take n evs) = Some st'"
    by blast
qed

lemma hypot_axis: "hypot a 0 = \<bar>a\<bar>"
  by (simp add: hypot_def)

text \<open>
  The example: a wheel step takes the width from 100 to 110, and a pinch that spreads
  the fingers from 40 to 400 apart takes it to the upper bound.
\<close>

lemma runEvents_example:
  "\<exists>st'. runEvents exampleState exampleEvents = Some st' \<and>
     map img_id (images st') = [0] \<and> map img_width (images st') = [1000]"
  by (simp add: exampleEvents_def handleWheel_def wheelObject_def wheelScaleImage_def
      handleTouchStart_def handleTouchMove_def handleTouchEnd_def handleInteractionEnd_def
      exampleState_def Let_def hypot_axis getImageAtPosition_def exampleView_def hitTest_def
      sprite_def pinchScaleImage_def MIN_WIDTH_def MAX_WIDTH_def)

theorem object_width_stays_in_range_witness:
  "img_width sprite = 100 \<and> sceneOk exampleState \<and> list_all touchesApart exampleEvents \<and>
   (\<exists>st'. runEvents exampleState (take 4 exampleEvents) = Some st' \<and>
      map img_id (images st') = [0] \<and> map img_width (images st') = [1000])"
proof -
  have all: "take 4 exampleEvents = exampleEvents"
    by (simp add: exampleEvents_def)
  have ok: "sceneOk exampleState"
    by (simp add: sceneOk_def exampleState_def exampleView_def sprite_def widthInRange_def
        validScale_def MIN_WIDTH_def MAX_WIDTH_def MIN_SCALE_def MAX_SCALE_def)
  have apart: "list_all touchesApart exampleEvents"
    by (simp add: exampleEvents_def)
  have start: "\<forall>img \<in> set (images exampleState).
      img_id img = 0 \<longrightarrow> MIN_WIDTH \<le> img_width img \<and> img_width img \<le> MAX_WIDTH"
    by (simp add: exampleState_def sprite_def MIN_WIDTH_def MAX_WIDTH_def)
  have len: "4 \<le> length exampleEvents"
    by (simp add: exampleEvents_def)
  from object_width_stays_in_range [OF start len] ok apart
  obtain st' where run: "runEvents exampleState (take 4 exampleEvents) = Some st'"
    and "\<forall>img \<in> set (images st').
           img_id img = 0 \<longrightarrow> MIN_WIDTH \<le> img_width img \<and> img_width img \<le> MAX_WIDTH"
    by blast
  with runEvents_example have "map img_id (images st') = [0]"
    "map img_width (images st') = [1000]"
    unfolding all by auto
  with run ok apart show ?thesis
    by (auto simp: sprite_def)
qed

text \<open>
  The width of \<open>pinchScaleImage\<close> is the one the source computes whenever that is a
  number, and the source computes NaN exactly in the cases that \<open>handleTouchMove\<close>
  reports as no state.
\<close>

lemma pinchWidth_finite:
  assumes "0 \<le> initialDistance" and "0 \<le> newDistance"
    and "pinchWidth initialDistance initialWidth newDistance = Finite r"
  shows "img_width (pinchScaleImage (img_id img) initialDistance initialWidth initialHeight
           centerX centerY newDistance img) = r"
  using assms
  by (auto simp: pinchWidth_def pinchScaleImage_def jsDivide_def Let_def MIN_WIDTH_def
      MAX_WIDTH_def split: if_splits)

lemma pinchWidth_NaN:
  assumes "0 \<le> initialDistance" and "0 \<le> newDistance"
  shows "pinchWidth initialDistance initialWidth newDistance = NaN \<longleftrightarrow>
         initialDistance = 0 \<and> (newDistance = 0 \<or> initialWidth = 0)"
  using assms
  by (auto simp: pinchWidth_def jsDivide_def Let_def split: if_splits)

text \<open>
  Claim C5: for every object whose width starts in \<open>[50, 1000]\<close> and every finite
  sequence of object-scale operations, the width stays in \<open>[50, 1000]\<close> after every
  operation. The pinch branch of \<open>handleTouchMove\<close> departs from it when the two touch
  points coincide at the start of the gesture and at a move: \<open>initialDistance\<close> is
  \<open>Math.hypot(0, 0) = 0\<close>, the ratio \<open>newDistance / initialDistance\<close> is \<open>0 / 0\<close>, which is
  NaN, \<open>newWidth\<close> is NaN, both comparisons of the clamp are false of NaN, and NaN is
  stored as the width of the object (the result \<open>None\<close> of \<open>handleTouchMove\<close>). On the
  example scene, whose one object has width 100, with both fingers on the screen point
  \<open>(110, 120)\<close>, the world point \<open>(50, 50)\<close> in the middle of the object:
\<close>

theorem pinch_of_coincident_touches_escapes_clamp:
  "images exampleState = [sprite] \<and>
   MIN_WIDTH \<le> img_width sprite \<and> img_width sprite \<le> MAX_WIDTH \<and>
   images (handleTouchStart exampleState coincidentTouches) = [sprite] \<and>
   pinchState (handleTouchStart exampleState coincidentTouches) =
     Some (ObjectPinch 0 0 100 100 50 50) \<and>
   pinchWidth 0 100 0 = NaN \<and>
   handleTouchMove (handleTouchStart exampleState coincidentTouches) coincidentTouches = None \<and>
   runEvents exampleState [TouchStart coincidentTouches, TouchMove coincidentTouches] = None"
  by (simp add: coincidentTouches_def handleTouchStart_def handleTouchMove_def
      exampleState_def Let_def hypot_axis getImageAtPosition_def exampleView_def hitTest_def
      sprite_def MIN_WIDTH_def MAX_WIDTH_def pinchWidth_def jsDivide_def)

section \<open>C6: hit-testing and content bounds\<close>







section \<open>C7: deletion and late completions\<close>

lemma find_Some_id:
  "find (\<lambda>img. img_id img = k) imgs = Some sel \<Longrightarrow> img_id sel = k \<and> sel \<in> set imgs"
  by (auto simp: find_Some_iff)

lemma filter_absent:
  "\<forall>img \<in> set prev. img_id img \<noteq> k \<Longrightarrow> filter (\<lambda>img. img_id img \<noteq> k) prev = prev"
  by (induction prev) auto

lemma map_absent:
  "\<forall>img \<in> set prev. img_id img \<noteq> k \<Longrightarrow>
     map (\<lambda>img. if img_id img \<noteq> k then img else f img) prev = prev"
  by (induction prev) auto

lemma selectedImage_Some:
  assumes "selectedImage st = Some sel"
  shows "selectedImageId st = Some (img_id sel) \<and> sel \<in> set (images st)"
  using assms by (auto simp: selectedImage_def split: option.splits dest: find_Some_id)

lemma selectedImage_absent:
  assumes "\<forall>img \<in> set (images st). Some (img_id img) \<noteq> selectedImageId st"
  shows "selectedImage st = None"
proof (cases "selectedImageId st")
  case None
  then show ?thesis by (simp add: selectedImage_def)
next
  case (Some k)
  with assms have "\<forall>img \<in> set (images st). img_id img \<noteq> k" by auto
  then have "find (\<lambda>img. img_id img = k) (images st) = None"
    by (simp add: find_None_iff)
  with Some show ?thesis by (simp add: selectedImage_def)
qed

text \<open>
  Claim C7. Deleting the selected object (an action that is enabled when the object is
  not generating) leaves no object of its id in the scene, so that no hit test returns
  it, and keeps every other object, in the order of the list. Deleting is idempotent: with a selected id that no object of the scene has, the
  handler leaves the state as it is, the filter of the deletion leaves such a scene as
  it is, and deleting twice is deleting once. The completion of a generation, success
  or failure, for an id that no object of the scene has any more leaves the scene as it
  is.
\<close>

theorem delete_removes_object_and_is_idempotent:
  "(selectedImage st = Some sel \<and> \<not> isGenerating sel \<longrightarrow>
      (\<forall>img \<in> set (images (handleDeleteSelected st)). img_id img \<noteq> img_id sel) \<and>
      (\<forall>t. getImageAtPosition vt (images (handleDeleteSelected st)) sx sy = Some t
            \<longrightarrow> img_id t \<noteq> img_id sel) \<and>
      images (handleDeleteSelected st) =
        filter (\<lambda>img. img_id img \<noteq> img_id sel) (images st)) \<and>
   ((\<forall>img \<in> set (images st). Some (img_id img) \<noteq> selectedImageId st) \<longrightarrow>
      handleDeleteSelected st = st) \<and>
   handleDeleteSelected (handleDeleteSelected st) = handleDeleteSelected st \<and>
   ((\<forall>img \<in> set prev. img_id img \<noteq> k) \<longrightarrow>
      filter (\<lambda>img. img_id img \<noteq> k) prev = prev \<and>
      generateFromImage k outcome prev = Some prev \<and>
      generateFromText k outcome prev = Some prev)"
proof (intro conjI impI)
  assume a: "selectedImage st = Some sel \<and> \<not> isGenerating sel"
  then have sid: "selectedImageId st = Some (img_id sel)"
    using selectedImage_Some by blast
  from a have en: "\<not> isActionDisabled st" by (simp add: isActionDisabled_def)
  from a en sid
  show gone: "\<forall>img \<in> set (images (handleDeleteSelected st)). img_id img \<noteq> img_id sel"
    by (auto simp: handleDeleteSelected_def)
  show "\<forall>t. getImageAtPosition vt (images (handleDeleteSelected st)) sx sy = Some t
            \<longrightarrow> img_id t \<noteq> img_id sel"
    using gone getImageAtPosition_member by blast
  from a en sid
  show "images (handleDeleteSelected st) =
      filter (\<lambda>img. img_id img \<noteq> img_id sel) (images st)"
    by (simp add: handleDeleteSelected_def)
next
  assume "\<forall>img \<in> set (images st). Some (img_id img) \<noteq> selectedImageId st"
  then have "selectedImage st = None" by (rule selectedImage_absent)
  then show "handleDeleteSelected st = st" by (simp add: handleDeleteSelected_def)
next
  show "handleDeleteSelected (handleDeleteSelected st) = handleDeleteSelected st"
    by (simp add: handleDeleteSelected_def selectedImage_def)
next
  assume "\<forall>img \<in> set prev. img_id img \<noteq> k"
  then show "filter (\<lambda>img. img_id img \<noteq> k) prev = prev" by (rule filter_absent)
next
  assume abs: "\<forall>img \<in> set prev. img_id img \<noteq> k"
  then have "\<not> list_ex (\<lambda>img. img_id img = k) prev" by (simp add: list_ex_iff)
  then show "generateFromImage k outcome prev = Some prev"
    using filter_absent [OF abs] map_absent [OF abs]
    by (cases outcome) (simp_all add: generateFromImage_def Let_def)
next
  assume abs: "\<forall>img \<in> set prev. img_id img \<noteq> k"
  then have "\<not> list_ex (\<lambda>img. img_id img = k) prev" by (simp add: list_ex_iff)
  then show "generateFromText k outcome prev = Some prev"
    using filter_absent [OF abs] map_absent [OF abs]
    by (cases outcome) (simp_all add: generateFromText_def Let_def)
qed

theorem delete_removes_object_and_is_idempotent_witness:
  "selectedImage exampleState = Some sprite \<and> \<not> isGenerating sprite \<and>
   images (handleDeleteSelected exampleState) = [] \<and>
   getImageAtPosition exampleView (images (handleDeleteSelected exampleState)) 110 120 = None \<and>
   getImageAtPosition exampleView (images exampleState) 110 120 = Some sprite \<and>
   handleDeleteSelected (exampleState\<lparr>selectedImageId := Some 7\<rparr>)
     = exampleState\<lparr>selectedImageId := Some 7\<rparr> \<and>
   generateFromImage 7 PipelineFailed [sprite] = Some [sprite] \<and>
   generateFromText 7 PipelineFailed [sprite] = Some [sprite]"
proof -
  have sel: "selectedImage exampleState = Some sprite" "\<not> isGenerating sprite"
    by (simp_all add: selectedImage_def exampleState_def sprite_def)
  have del: "images (handleDeleteSelected exampleState) = []"
    using sel
    by (simp add: handleDeleteSelected_def isActionDisabled_def)
       (simp add: exampleState_def sprite_def)
  have hit: "getImageAtPosition exampleView (images exampleState) 110 120 = Some sprite"
    by (simp add: getImageAtPosition_def exampleView_def exampleState_def hitTest_def Let_def
        sprite_def)
  have absent: "\<forall>img \<in> set (images (exampleState\<lparr>selectedImageId := Some 7\<rparr>)).
      Some (img_id img) \<noteq> selectedImageId (exampleState\<lparr>selectedImageId := Some 7\<rparr>)"
    "\<forall>img \<in> set [sprite]. img_id img \<noteq> 7"
    by (simp_all add: exampleState_def sprite_def)
  from delete_removes_object_and_is_idempotent
         [of "exampleState\<lparr>selectedImageId := Some 7\<rparr>" sprite exampleView 110 120
             "[sprite]" 7 PipelineFailed]
       absent
  have "handleDeleteSelected (exampleState\<lparr>selectedImageId := Some 7\<rparr>)
          = exampleState\<lparr>selectedImageId := Some 7\<rparr>"
    and "generateFromImage 7 PipelineFailed [sprite] = Some [sprite]"
    and "generateFromText 7 PipelineFailed [sprite] = Some [sprite]"
    by blast+
  with sel del hit show ?thesis
    by (simp add: getImageAtPosition_def exampleView_def)
qed

section \<open>C8: remix suggestions\<close>

lemma strings_map:
  "(\<forall>p \<in> set xs. \<exists>s. p = JString s) \<Longrightarrow> \<exists>ss. xs = map JString ss"
  by (induction xs) (auto simp: Cons_eq_map_conv)

lemma take_strings:
  assumes "\<forall>p \<in> set prompts. \<exists>s. p = JString s"
  shows "\<exists>ss. length ss \<le> 5 \<and> take 5 prompts = map JString ss"
proof -
  have "\<forall>p \<in> set (take 5 prompts). \<exists>s. p = JString s"
    using assms by (auto dest: in_set_takeD)
  from strings_map [OF this] obtain ss where ss: "take 5 prompts = map JString ss" ..
  then have "length ss = length (take 5 prompts)" by simp
  then have "length ss \<le> 5" by simp
  with ss show ?thesis by blast
qed

text \<open>
  Claim C8, as stated: for every input \<open>getRemixSuggestions\<close> returns a list of at most 5
  strings and never throws to its caller. It fails in three ways. The check of
  \<open>process.env.API_KEY\<close> at the head of the function, before the \<open>try\<close> block, throws
  when no API key is configured; \<open>fileToBase64\<close> is awaited before the \<open>try\<close> block
  too, so its rejection reaches the caller; and the entries of the \<open>prompts\<close> array are
  returned as they are, so a response whose array holds a number returns a number.
\<close>

theorem getRemixSuggestions_never_throws_counterexample:
  "getRemixSuggestions trimAscii parseExample noApiKey = Inl ApiKeyNotSet \<and>
   getRemixSuggestions trimAscii parseExample unreadableFile = Inl FileReadError \<and>
   getRemixSuggestions trimAscii parseExample numberPrompt = Inr [JNumber 7]"
  by (simp add: getRemixSuggestions_def noApiKey_def unreadableFile_def numberPrompt_def
      parseExample_def trimAscii_def isSpace_def)

text \<open>
  Claim C8, amended. Without an API key (not set, or the empty string)
  \<open>getRemixSuggestions\<close> throws to its caller, and so it does when the image file cannot
  be read. With an API key and the file read it returns a list of at most 5 entries and
  never throws: the empty list when the request fails, when the response has no text,
  when the text does not parse, and when the parsed value is not an object whose
  \<open>prompts\<close> member is an array; the first 5 entries of that array otherwise, which are
  at most 5 strings when the array holds strings.
\<close>

theorem getRemixSuggestions_best_effort:
  "(apiKey env = None \<or> apiKey env = Some [] \<longrightarrow>
      getRemixSuggestions trim parse env = Inl ApiKeyNotSet) \<and>
   (\<forall>key. apiKey env = Some key \<and> key \<noteq> [] \<longrightarrow>
      (fileBase64 env = None \<longrightarrow> getRemixSuggestions trim parse env = Inl FileReadError) \<and>
      (\<forall>base64ImageData. fileBase64 env = Some base64ImageData \<longrightarrow>
         (\<exists>xs. getRemixSuggestions trim parse env = Inr xs \<and> length xs \<le> 5) \<and>
         (request env = RequestFailed \<longrightarrow> getRemixSuggestions trim parse env = Inr []) \<and>
         (request env = Response None \<longrightarrow> getRemixSuggestions trim parse env = Inr []) \<and>
         (\<forall>text. request env = Response (Some text) \<longrightarrow>
            (parse (trim text) = None \<longrightarrow> getRemixSuggestions trim parse env = Inr []) \<and>
            (\<forall>members prompts.
               parse (trim text) = Some (JObject members) \<and>
               map_of members ''prompts'' = Some (JArray prompts) \<longrightarrow>
                 getRemixSuggestions trim parse env = Inr (take 5 prompts) \<and>
                 ((\<forall>p \<in> set prompts. \<exists>s. p = JString s) \<longrightarrow>
                    (\<exists>ss. length ss \<le> 5 \<and>
                       getRemixSuggestions trim parse env = Inr (map JString ss)))) \<and>
            ((\<nexists>members prompts.
               parse (trim text) = Some (JObject members) \<and>
               map_of members ''prompts'' = Some (JArray prompts)) \<longrightarrow>
                 getRemixSuggestions trim parse env = Inr []))))"
proof -
  have nokey: "getRemixSuggestions trim parse env = Inl ApiKeyNotSet"
    if "apiKey env = None \<or> apiKey env = Some []"
    using that by (auto simp: getRemixSuggestions_def)
  have nofile: "getRemixSuggestions trim parse env = Inl FileReadError"
    if "apiKey env = Some key" "key \<noteq> []" "fileBase64 env = None" for key
    using that by (simp add: getRemixSuggestions_def)
  have bounded: "\<exists>xs. getRemixSuggestions trim parse env = Inr xs \<and> length xs \<le> 5"
    if "apiKey env = Some key" "key \<noteq> []" "fileBase64 env = Some d" for key d
    using that
    by (auto simp: getRemixSuggestions_def
        split: RequestOutcome.splits option.splits JsonValue.splits)
  have failed: "getRemixSuggestions trim parse env = Inr []"
    if "apiKey env = Some key" "key \<noteq> []" "fileBase64 env = Some d"
      "request env = RequestFailed \<or> request env = Response None \<or>
       (\<exists>text. request env = Response (Some text) \<and> parse (trim text) = None)" for key d
    using that by (auto simp: getRemixSuggestions_def)
  have success: "getRemixSuggestions trim parse env = Inr (take 5 prompts)"
    if "apiKey env = Some key" "key \<noteq> []" "fileBase64 env = Some d"
      "request env = Response (Some body)" "parse (trim body) = Some (JObject members)"
      "map_of members ''prompts'' = Some (JArray prompts)" for key d body members prompts
    using that by (simp add: getRemixSuggestions_def)
  have other: "getRemixSuggestions trim parse env = Inr []"
    if "apiKey env = Some key" "key \<noteq> []" "fileBase64 env = Some d"
      "request env = Response (Some body)"
      "\<nexists>members prompts. parse (trim body) = Some (JObject members) \<and>
         map_of members ''prompts'' = Some (JArray prompts)" for key d body
    using that
    by (auto simp: getRemixSuggestions_def split: option.splits JsonValue.splits)
  have strings: "\<exists>ss. length ss \<le> 5 \<and> getRemixSuggestions trim parse env = Inr (map JString ss)"
    if "apiKey env = Some key" "key \<noteq> []" "fileBase64 env = Some d"
      "request env = Response (Some body)" "parse (trim body) = Some (JObject members)"
      "map_of members ''prompts'' = Some (JArray prompts)"
      "\<forall>p \<in> set prompts. \<exists>s. p = JString s" for key d body members prompts
  proof -
    from take_strings [OF that(7)] obtain ss
      where "length ss \<le> 5" "take 5 prompts = map JString ss"
      by blast
    with success [OF that(1-6)] show ?thesis by auto
  qed
  show ?thesis
  proof (intro conjI allI impI; (elim conjE)?)
    show "getRemixSuggestions trim parse env = Inl ApiKeyNotSet"
      if "apiKey env = None \<or> apiKey env = Some []"
      using that by (rule nokey)
  next
    fix key
    assume k: "apiKey env = Some key" "key \<noteq> []"
    show "getRemixSuggestions trim parse env = Inl FileReadError" if "fileBase64 env = None"
      using k that by (rule nofile)
    fix d
    assume d: "fileBase64 env = Some d"
    show "\<exists>xs. getRemixSuggestions trim parse env = Inr xs \<and> length xs \<le> 5"
      using k d by (rule bounded)
    show "getRemixSuggestions trim parse env = Inr []" if "request env = RequestFailed"
      using k d that by (intro failed) simp_all
    show "getRemixSuggestions trim parse env = Inr []" if "request env = Response None"
      using k d that by (intro failed) simp_all
    fix body
    assume r: "request env = Response (Some body)"
    show "getRemixSuggestions trim parse env = Inr []" if "parse (trim body) = None"
      using k d r that by (intro failed) simp_all
    show "getRemixSuggestions trim parse env = Inr []"
      if "\<nexists>members prompts. parse (trim body) = Some (JObject members) \<and>
         map_of members ''prompts'' = Some (JArray prompts)"
      using k d r that by (rule other)
    fix members prompts
    assume p: "parse (trim body) = Some (JObject members)"
      "map_of members ''prompts'' = Some (JArray prompts)"
    show "getRemixSuggestions trim parse env = Inr (take 5 prompts)"
      using k d r p by (rule success)
    show "\<exists>ss. length ss \<le> 5 \<and> getRemixSuggestions trim parse env = Inr (map JString ss)"
      if "\<forall>p \<in> set prompts. \<exists>s. p = JString s"
      using k d r p that by (rule strings)
  qed
qed

theorem getRemixSuggestions_best_effort_witness:
  "getRemixSuggestions trimAscii parseExample failingRequest = Inr [] \<and>
   trimAscii '' six '' = ''six'' \<and>
   getRemixSuggestions trimAscii parseExample sixPrompts =
     Inr [JString ''a'', JString ''b'', JString ''c'', JString ''d'', JString ''e'']"
proof -
  note T = getRemixSuggestions_best_effort [of _ trimAscii parseExample]
  have a: "getRemixSuggestions trimAscii parseExample failingRequest = Inr []"
    using T [of failingRequest] by (simp add: failingRequest_def)
  have t: "trimAscii '' six '' = ''six''"
    by (simp add: trimAscii_def isSpace_def)
  have "getRemixSuggestions trimAscii parseExample sixPrompts =
     Inr (take 5 [JString ''a'', JString ''b'', JString ''c'', JString ''d'', JString ''e'',
       JString ''f''])"
    using T [of sixPrompts] by (simp add: sixPrompts_def t parseExample_def)
  with a t show ?thesis by simp
qed

section \<open>C9: arrow keys\<close>

text \<open>
  Claim C9. When no text field has the focus and an object that is not generating is
  selected, an arrow key moves the selected object along the axis of the key by the
  fixed step 25 compensated for the scale, that is by \<open>25 / scale\<close> world units (25
  world units at scale 1), and leaves its width, its height and every other field, and
  every other object, as they are.
\<close>

theorem arrow_key_moves_selected_object:
  assumes "activeTagName \<noteq> Some ''INPUT''" and "activeTagName \<noteq> Some ''TEXTAREA''"
    and "selectedImage st = Some sel" and "\<not> isGenerating sel"
    and "validScale (viewTransform st)"
    and "key \<in> {''ArrowUp'', ''ArrowDown'', ''ArrowLeft'', ''ArrowRight''}"
  shows "handleKeyDown st key activeTagName =
           Some (st\<lparr>images :=
             map (\<lambda>img. if img_id img = img_id sel
                         then img\<lparr>img_x := img_x sel
                                      + fst (arrowDirection key)
                                        * (MOVE_AMOUNT / scale (viewTransform st)),
                                  img_y := img_y sel
                                      + snd (arrowDirection key)
                                        * (MOVE_AMOUNT / scale (viewTransform st))\<rparr>
                         else img) (images st)\<rparr>)"
proof -
  from assms(3) have sid: "selectedImageId st = Some (img_id sel)"
    and fnd: "find (\<lambda>img. img_id img = img_id sel) (images st) = Some sel"
    by (auto simp: selectedImage_def split: option.splits dest: find_Some_id)
  have fnd': "find (\<lambda>img. Some (img_id img) = Some (img_id sel)) (images st) = Some sel"
    using fnd by simp
  from assms(3,4) have en: "\<not> isActionDisabled st" by (simp add: isActionDisabled_def)
  from assms(5) have nz: "scale (viewTransform st) \<noteq> 0"
    by (simp add: validScale_def MIN_SCALE_def)
  from assms(6) have nm: "key \<noteq> ''m''" by auto
  show ?thesis
    using assms(1,2,6) sid fnd' en nz nm
    by (auto simp: handleKeyDown_def Let_def arrowDirection_def)
qed

theorem arrow_key_moves_selected_object_witness:
  "selectedImage exampleState = Some sprite \<and> validScale (viewTransform exampleState) \<and>
   MOVE_AMOUNT / scale (viewTransform exampleState) = 12.5 \<and>
   handleKeyDown exampleState ''ArrowRight'' None =
     Some (exampleState\<lparr>images := [sprite\<lparr>img_x := 12.5, img_y := 0\<rparr>]\<rparr>) \<and>
   handleKeyDown exampleState ''ArrowUp'' (Some ''BODY'') =
     Some (exampleState\<lparr>images := [sprite\<lparr>img_x := 0, img_y := -12.5\<rparr>]\<rparr>)"
proof -
  have sel: "selectedImage exampleState = Some sprite" "\<not> isGenerating sprite"
    by (simp_all add: selectedImage_def exampleState_def sprite_def)
  have v: "validScale (viewTransform exampleState)"
    by (simp add: validScale_def exampleState_def exampleView_def MIN_SCALE_def MAX_SCALE_def)
  have step: "MOVE_AMOUNT / scale (viewTransform exampleState) = 12.5"
    by (simp add: MOVE_AMOUNT_def exampleState_def exampleView_def)
  have imgs: "images exampleState = [sprite]" "img_x sprite = 0" "img_y sprite = 0"
    by (simp_all add: exampleState_def sprite_def)
  have r: "handleKeyDown exampleState ''ArrowRight'' None =
     Some (exampleState\<lparr>images := [sprite\<lparr>img_x := 12.5, img_y := 0\<rparr>]\<rparr>)"
    using arrow_key_moves_selected_object [of None exampleState sprite "''ArrowRight''"] sel v
    by (simp add: step imgs arrowDirection_def)
  have u: "handleKeyDown exampleState ''ArrowUp'' (Some ''BODY'') =
     Some (exampleState\<lparr>images := [sprite\<lparr>img_x := 0, img_y := -12.5\<rparr>]\<rparr>)"
    using arrow_key_moves_selected_object
            [of "Some ''BODY''" exampleState sprite "''ArrowUp''"] sel v
    by (simp add: step imgs arrowDirection_def)
  from sel v step r u show ?thesis by simp
qed

section \<open>C10: hit-testing does not read the flip flag\<close>

lemma hitTest_flip:
  "hitTest wx wy (img\<lparr>flippedHorizontally := b\<rparr>) = hitTest wx wy img"
  by (simp add: hitTest_def Let_def cong: option.case_cong if_cong)

lemma hitLoop_flags:
  assumes "length imgs' = length imgs"
    and "\<forall>i < length imgs. eraseFlip (imgs' ! i) = eraseFlip (imgs ! i)"
    and "n \<le> length imgs"
  shows "map_option eraseFlip (hitLoop wx wy imgs' n)
           = map_option eraseFlip (hitLoop wx wy imgs n)"
  using assms(3)
proof (induction n)
  case 0
  then show ?case by simp
next
  case (Suc n)
  then have n: "n < length imgs" by simp
  with assms(2) have e: "eraseFlip (imgs' ! n) = eraseFlip (imgs ! n)" by simp
  have "hitTest wx wy (imgs' ! n) = hitTest wx wy (eraseFlip (imgs' ! n))"
    by (simp add: eraseFlip_def hitTest_flip)
  also have "\<dots> = hitTest wx wy (imgs ! n)"
    unfolding e by (simp add: eraseFlip_def hitTest_flip)
  finally have h: "hitTest wx wy (imgs' ! n) = hitTest wx wy (imgs ! n)" .
  from Suc n
  have "map_option eraseFlip (hitLoop wx wy imgs' n)
          = map_option eraseFlip (hitLoop wx wy imgs n)"
    by simp
  with h e show ?case by simp
qed

lemma getImageAtPosition_flags:
  assumes "length imgs' = length imgs"
    and "\<forall>i < length imgs. eraseFlip (imgs' ! i) = eraseFlip (imgs ! i)"
  shows "map_option eraseFlip (getImageAtPosition vt imgs' sx sy) =
         map_option eraseFlip (getImageAtPosition vt imgs sx sy)"
  using hitLoop_flags [OF assms, of "length imgs"] assms(1)
  by (simp add: getImageAtPosition_def Let_def)

text \<open>
  Claim C10. Hit-testing is independent of \<open>flippedHorizontally\<close>: for two scenes that
  differ only in the flag of one object (the object at any index \<open>i\<close>, with any new
  value \<open>b\<close>; or the selected object, flipped by \<open>handleFlipSelected\<close>), hit-testing
  any screen point under any view transform returns the same object, that is, results
  that are equal but for the flag of the object returned.
\<close>

theorem hit_testing_ignores_flip:
  "map_option eraseFlip
     (getImageAtPosition vt (imgs[i := (imgs ! i)\<lparr>flippedHorizontally := b\<rparr>]) sx sy) =
   map_option eraseFlip (getImageAtPosition vt imgs sx sy) \<and>
   map_option eraseFlip (getImageAtPosition vt (images (handleFlipSelected st)) sx sy) =
   map_option eraseFlip (getImageAtPosition vt (images st) sx sy)"
proof
  show "map_option eraseFlip
     (getImageAtPosition vt (imgs[i := (imgs ! i)\<lparr>flippedHorizontally := b\<rparr>]) sx sy) =
   map_option eraseFlip (getImageAtPosition vt imgs sx sy)"
  proof (rule getImageAtPosition_flags)
    show "length (imgs[i := (imgs ! i)\<lparr>flippedHorizontally := b\<rparr>]) = length imgs"
      by simp
    show "\<forall>j < length imgs.
            eraseFlip (imgs[i := (imgs ! i)\<lparr>flippedHorizontally := b\<rparr>] ! j)
              = eraseFlip (imgs ! j)"
    proof (intro allI impI)
      fix j assume "j < length imgs"
      then show "eraseFlip (imgs[i := (imgs ! i)\<lparr>flippedHorizontally := b\<rparr>] ! j)
                   = eraseFlip (imgs ! j)"
        by (cases "i = j") (simp_all add: eraseFlip_def)
    qed
  qed
next
  show "map_option eraseFlip (getImageAtPosition vt (images (handleFlipSelected st)) sx sy) =
   map_option eraseFlip (getImageAtPosition vt (images st) sx sy)"
    by (rule getImageAtPosition_flags)
      (auto simp: handleFlipSelected_def eraseFlip_def split: option.splits)
qed

theorem hit_testing_ignores_flip_witness:
  "images (handleFlipSelected exampleState) = [sprite\<lparr>flippedHorizontally := Some True\<rparr>] \<and>
   getImageAtPosition exampleView (images exampleState) 110 120 = Some sprite \<and>
   getImageAtPosition exampleView (images (handleFlipSelected exampleState)) 110 120
     = Some (sprite\<lparr>flippedHorizontally := Some True\<rparr>) \<and>
   map_option eraseFlip
     (getImageAtPosition exampleView (images (handleFlipSelected exampleState)) 110 120)
     = map_option eraseFlip (getImageAtPosition exampleView (images exampleState) 110 120)"
proof -
  have sel: "selectedImage exampleState = Some sprite" "\<not> isActionDisabled exampleState"
    by (simp_all add: selectedImage_def isActionDisabled_def exampleState_def sprite_def)
  have flip: "images (handleFlipSelected exampleState)
      = [sprite\<lparr>flippedHorizontally := Some True\<rparr>]"
    using sel
    by (simp add: handleFlipSelected_def) (simp add: exampleState_def sprite_def)
  have hit: "getImageAtPosition exampleView (images exampleState) 110 120 = Some sprite"
    by (simp add: getImageAtPosition_def exampleView_def exampleState_def hitTest_def Let_def
        sprite_def)
  have hit': "getImageAtPosition exampleView [sprite\<lparr>flippedHorizontally := Some True\<rparr>] 110 120
      = Some (sprite\<lparr>flippedHorizontally := Some True\<rparr>)"
    by (simp add: getImageAtPosition_def exampleView_def hitTest_def Let_def sprite_def)
  from hit_testing_ignores_flip [of exampleView "[]" 0 None 110 120 exampleState]
  have "map_option eraseFlip
     (getImageAtPosition exampleView (images (handleFlipSelected exampleState)) 110 120)
     = map_option eraseFlip (getImageAtPosition exampleView (images exampleState) 110 120)"
    by blast
  with flip hit hit' show ?thesis by simp
qed

end
